theory Spec2Isabelle
  imports Main "HOL-Library.Multiset"
begin

section \<open>Strings, numbers and the library functions the file browser calls\<close>

text \<open>
  The source file holds several revisions of the browser; the model follows the one that
  contains the episode mapping engine. A JavaScript string is modelled as a \<open>string\<close>;
  a \<open>char\<close> stands for the code unit with the same number, so the model covers the code
  units below 256 (Latin-1), which include every character the program's tables mention.
  A JavaScript number that holds an integer is an \<open>int\<close>; the loss of precision above
  \<open>2^53\<close> is outside the model.
\<close>

definition isDigit :: "char \<Rightarrow> bool" where
  "isDigit c = (c \<in> set ''0123456789'')"

text \<open>The value of a decimal digit, and of a run of digits read from the left.\<close>

definition digitValue :: "char \<Rightarrow> int" where
  "digitValue c = int (of_char c) - 48"

definition digitsValue :: "string \<Rightarrow> int" where
  "digitsValue ds = foldl (\<lambda>acc c. 10 * acc + digitValue c) 0 ds"

text \<open>
  \<^verbatim>\<open>parseInt\<close> yields the number written by the longest prefix of digits, and \<open>NaN\<close> when
  there is none. (Leading white space, a sign and a \<^verbatim>\<open>0x\<close> prefix are not modelled: every
  argument the program passes starts with a digit and holds digits only, see
  \<open>match_Digits_digits\<close> and \<open>match_ClassDigits_shape\<close>.)
\<close>

datatype number = NaN | Num int

definition parseInt :: "string \<Rightarrow> number" where
  "parseInt s = (let ds = takeWhile isDigit s in if ds = [] then NaN else Num (digitsValue ds))"

text \<open>
  The two shapes of regular expression the program uses to find numbers:
  \<^verbatim>\<open>/[cs]\d+/\<close> (one character of a class, then one or more digits) and \<^verbatim>\<open>/\d+/\<close>.
  \<open>matchAt\<close> matches at the start of the string (the digits greedily, nothing follows them,
  so there is no backtracking); \<open>match\<close> is \<^verbatim>\<open>String.prototype.match\<close> for a regular
  expression without the \<^verbatim>\<open>g\<close> flag: the text of the leftmost match, or \<open>None\<close> for \<^verbatim>\<open>null\<close>.
\<close>

datatype regex = ClassDigits "char list" | Digits

fun matchAt :: "regex \<Rightarrow> string \<Rightarrow> string option" where
  "matchAt Digits s =
     (let ds = takeWhile isDigit s in if ds = [] then None else Some ds)"
| "matchAt (ClassDigits cs) [] = None"
| "matchAt (ClassDigits cs) (c # s) =
     (if c \<in> set cs
      then (case matchAt Digits s of None \<Rightarrow> None | Some ds \<Rightarrow> Some (c # ds))
      else None)"

fun match :: "regex \<Rightarrow> string \<Rightarrow> string option" where
  "match r [] = matchAt r []"
| "match r (c # s) = (case matchAt r (c # s) of Some m \<Rightarrow> Some m | None \<Rightarrow> match r s)"

text \<open>
  \<^verbatim>\<open>s.replace(/pat/g, rep)\<close> for a pattern that is a fixed, non-empty text: every
  occurrence, found from the left and not overlapping, is replaced.
\<close>

fun isPrefixOf :: "string \<Rightarrow> string \<Rightarrow> bool" where
  "isPrefixOf [] s = True"
| "isPrefixOf (p # ps) [] = False"
| "isPrefixOf (p # ps) (c # s) = (p = c \<and> isPrefixOf ps s)"

function replaceAll :: "string \<Rightarrow> string \<Rightarrow> string \<Rightarrow> string" where
  "replaceAll pat rep [] = []"
| "replaceAll pat rep (c # s) =
     (if pat \<noteq> [] \<and> isPrefixOf pat (c # s)
      then rep @ replaceAll pat rep (drop (length pat) (c # s))
      else c # replaceAll pat rep s)"
  by pat_completeness auto
termination
  by (relation "measure (\<lambda>(pat, rep, s). length s)") auto

text \<open>Template literals print an integer in decimal, with a minus sign when negative.\<close>

definition digitChar :: "nat \<Rightarrow> char" where
  "digitChar d = char_of (48 + d)"

function showNat :: "nat \<Rightarrow> string" where
  "showNat n = (if n < 10 then [digitChar n] else showNat (n div 10) @ [digitChar (n mod 10)])"
  by pat_completeness auto
termination
  by (relation "measure id") auto

declare showNat.simps [simp del]

definition showInt :: "int \<Rightarrow> string" where
  "showInt i = (if i < 0 then CHR ''-'' # showNat (nat (- i)) else showNat (nat i))"

text \<open>
  \<^verbatim>\<open>String.prototype.toLowerCase\<close> on Latin-1: the letters A to Z and the accented capitals
  \<open>0xC0\<close> to \<open>0xDE\<close> (without the multiplication sign \<open>0xD7\<close>) move up by 32.
\<close>

definition lowerChar :: "char \<Rightarrow> char" where
  "lowerChar c =
     (let n = (of_char c :: nat)
      in if (65 \<le> n \<and> n \<le> 90) \<or> (192 \<le> n \<and> n \<le> 222 \<and> n \<noteq> 215) then char_of (n + 32) else c)"

definition toLowerCase :: "string \<Rightarrow> string" where
  "toLowerCase s = map lowerChar s"


subsection \<open>Paths (the POSIX flavour of Node's \<^verbatim>\<open>path\<close> module)\<close>

text \<open>
  \<open>splitSlash\<close> cuts a path at every slash; \<open>joinSegs\<close> puts the pieces back with a slash
  between them. \<open>normalizeSegs\<close> is the loop of \<^verbatim>\<open>normalizeString\<close>: empty pieces and \<^verbatim>\<open>.\<close>
  are dropped, \<^verbatim>\<open>..\<close> removes the piece before it (or stays, for a relative path that climbs
  above its start), every other piece is kept.
\<close>

fun splitSlash :: "string \<Rightarrow> string list" where
  "splitSlash [] = [[]]"
| "splitSlash (c # s) =
     (if c = CHR ''/'' then [] # splitSlash s
      else (case splitSlash s of [] \<Rightarrow> [[c]] | seg # segs \<Rightarrow> (c # seg) # segs))"

fun joinSegs :: "string list \<Rightarrow> string" where
  "joinSegs [] = []"
| "joinSegs [seg] = seg"
| "joinSegs (seg # segs) = seg @ CHR ''/'' # joinSegs segs"

fun normalizeSegs :: "bool \<Rightarrow> string list \<Rightarrow> string list \<Rightarrow> string list" where
  "normalizeSegs allowAboveRoot res [] = res"
| "normalizeSegs allowAboveRoot res (seg # segs) =
     (if seg = [] \<or> seg = ''.'' then normalizeSegs allowAboveRoot res segs
      else if seg = ''..'' then
        (if res \<noteq> [] \<and> last res \<noteq> ''..'' then normalizeSegs allowAboveRoot (butlast res) segs
         else if allowAboveRoot then normalizeSegs allowAboveRoot (res @ [''..'']) segs
         else normalizeSegs allowAboveRoot res segs)
      else normalizeSegs allowAboveRoot (res @ [seg]) segs)"

definition normalize :: "string \<Rightarrow> string" where
  "normalize path =
     (if path = [] then ''.''
      else
        let isAbsolute = (hd path = CHR ''/'');
            trailingSeparator = (last path = CHR ''/'');
            p = joinSegs (normalizeSegs (\<not> isAbsolute) [] (splitSlash path))
        in if p = [] then (if isAbsolute then ''/'' else if trailingSeparator then ''./'' else ''.'')
           else (if isAbsolute then ''/'' else []) @ p @ (if trailingSeparator then ''/'' else []))"

text \<open>\<^verbatim>\<open>path.join(a, b)\<close>: the non-empty arguments, with a slash between them, normalised.\<close>

definition join :: "string \<Rightarrow> string \<Rightarrow> string" where
  "join a b =
     (if a = [] \<and> b = [] then ''.''
      else if a = [] then normalize b
      else if b = [] then normalize a
      else normalize (a @ CHR ''/'' # b))"

text \<open>
  \<^verbatim>\<open>path.basename\<close>: the last piece of the path, trailing slashes set aside.
  \<^verbatim>\<open>path.extname\<close>: what follows the last dot of that piece, the dot included; empty when
  the piece has no dot, when its only dot is its first character, and when the piece is \<^verbatim>\<open>..\<close>.
\<close>

definition basename :: "string \<Rightarrow> string" where
  "basename path =
     rev (takeWhile (\<lambda>c. c \<noteq> CHR ''/'') (dropWhile (\<lambda>c. c = CHR ''/'') (rev path)))"

definition extname :: "string \<Rightarrow> string" where
  "extname path =
     (let b = basename path;
          ext = rev (takeWhile (\<lambda>c. c \<noteq> CHR ''.'') (rev b))
      in if CHR ''.'' \<notin> set b then []
         else if length b = length ext + 1 then []
         else if b = ''..'' then []
         else CHR ''.'' # ext)"

text \<open>\<^verbatim>\<open>String.prototype.startsWith\<close>.\<close>

definition startsWith :: "string \<Rightarrow> string \<Rightarrow> bool" where
  "startsWith s p = isPrefixOf p s"

section \<open>The data model\<close>

text \<open>
  Of an \<open>Episode\<close> and a \<open>Series\<close> the program reads the fields below only; the other fields
  the metadata provider delivers are left out.
\<close>

record Episode =
  ident :: int
  airedSeason :: int
  airedEpisodeNumber :: int
  episodeName :: string

record Series =
  seriesName :: string
  episodes :: "Episode list"

text \<open>
  An \<open>ArrayPromptOption\<close> is a choice of a select list: \<open>name\<close> identifies it, \<open>message\<close>
  is the line shown, \<open>value\<close> (here \<open>val\<close>) is what it stands for, and \<open>disabled\<close> is
  \<^verbatim>\<open>false\<close> or absent (\<open>None\<close>) or the reason shown beside a choice that cannot be taken.
  An \<open>EpisodeMapping\<close> is a choice whose value carries the paths; there \<open>None\<close> stands for
  \<^verbatim>\<open>undefined\<close>.
\<close>

record 'v ArrayPromptOption =
  name :: string
  message :: string
  val :: 'v
  disabled :: "string option"

record MappingValue =
  originalPath :: string
  updatedPath :: string
  episode :: "Episode option"
  rename :: bool
  episodeNumber :: "string option"
  seasonNumber :: int
  seasonFolder :: string

type_synonym EpisodeMapping = "MappingValue ArrayPromptOption"

record SeasonEntry =
  folderName :: "string option"
  episodeMappings :: "EpisodeMapping list"

text \<open>
  A \<open>SeasonMapping\<close> is an object with the season numbers as keys. It is kept as an
  association list in ascending order of the keys, the order in which JavaScript enumerates
  integer keys; \<open>setSeason\<close> is the assignment \<^verbatim>\<open>result[season] = entry\<close>, \<open>getSeason\<close> the
  read \<^verbatim>\<open>result[season]\<close>, \<open>objectValues\<close> is \<^verbatim>\<open>Object.values\<close>.
\<close>

type_synonym SeasonMapping = "(int \<times> SeasonEntry) list"

fun setSeason :: "int \<Rightarrow> SeasonEntry \<Rightarrow> SeasonMapping \<Rightarrow> SeasonMapping" where
  "setSeason k e [] = [(k, e)]"
| "setSeason k e ((k', e') # m) =
     (if k = k' then (k, e) # m
      else if k < k' then (k, e) # (k', e') # m
      else (k', e') # setSeason k e m)"

definition getSeason :: "SeasonMapping \<Rightarrow> int \<Rightarrow> SeasonEntry option" where
  "getSeason m k = map_of m k"


section \<open>The constant tables\<close>

definition videoFileExtensions :: "string list" where
  "videoFileExtensions = [''.mp4'', ''.mkv'', ''.avi'']"

definition episodeRegexes :: "(regex \<times> nat) list" where
  "episodeRegexes = [(ClassDigits ''eE'', 1), (ClassDigits ''xX'', 1), (Digits, 0)]"

text \<open>
  The characters \<open>0xE4\<close>, \<open>0xF6\<close>, \<open>0xFC\<close>, \<open>0xDF\<close>, \<open>0xC4\<close>, \<open>0xD6\<close>, \<open>0xDC\<close> are
  a-umlaut, o-umlaut, u-umlaut, sharp s, A-umlaut, O-umlaut and U-umlaut; \<open>0x22\<close> is the
  double quote, \<open>0x27\<close> the single quote and \<open>0x09\<close> the tab.
\<close>

definition episodeReplaces :: "(string \<times> string) list" where
  "episodeReplaces =
     [([CHR 0xE4], ''ae''),
      ([CHR 0xF6], ''oe''),
      ([CHR 0xFC], ''ue''),
      ([CHR 0xDF], ''ss''),
      ([CHR 0xC4], ''AE''),
      ([CHR 0xD6], ''OE''),
      ([CHR 0xDC], ''UE''),
      (''?'', []),
      ('','', []),
      ('': '', ''-''),
      ('':'', ''-''),
      ([CHR 0x22], [CHR 0x27]),
      ('' '', ''.''),
      (''/'', ''_''),
      ([CHR 0x09], [])]"


section \<open>Names and numbers\<close>

definition twoZero :: "int \<Rightarrow> string" where
  "twoZero input = (if input < 10 then CHR ''0'' # showInt input else showInt input)"

definition threeZero :: "int \<Rightarrow> string" where
  "threeZero input = (if input < 100 then CHR ''0'' # twoZero input else showInt input)"

definition generateEpisodeNumber :: "int \<Rightarrow> nat \<Rightarrow> string" where
  "generateEpisodeNumber epNumber episodesInSeason =
     (if episodesInSeason < 100 then twoZero epNumber else threeZero epNumber)"

text \<open>
  The loop of \<open>generateEpisodeFileName\<close> over the table of replacements, each applied to
  the result of the one before.
\<close>

fun applyReplaces :: "(string \<times> string) list \<Rightarrow> string \<Rightarrow> string" where
  "applyReplaces [] newEpisodeName = newEpisodeName"
| "applyReplaces ((pat, replacement) # rs) newEpisodeName =
     applyReplaces rs (replaceAll pat replacement newEpisodeName)"

definition sanitize :: "string \<Rightarrow> string" where
  "sanitize newEpisodeName = applyReplaces episodeReplaces newEpisodeName"

definition generateEpisodeFileName ::
  "string \<Rightarrow> string \<Rightarrow> int \<Rightarrow> string \<Rightarrow> int \<Rightarrow> nat \<Rightarrow> string" where
  "generateEpisodeFileName fileExtension sName sNumber epName epNumber episodesInSeason =
     sanitize (sName @ ''.S'' @ twoZero sNumber @ ''E''
                @ generateEpisodeNumber epNumber episodesInSeason @ ''.'' @ epName @ fileExtension)"

section \<open>One file: \<open>generateEpisodeName\<close>\<close>

definition unchangedEpisodeMapping :: "string \<Rightarrow> int \<Rightarrow> string \<Rightarrow> EpisodeMapping" where
  "unchangedEpisodeMapping sFolder sNumber fileName =
     \<lparr>name = fileName,
      message = ''--- '' @ fileName,
      val = \<lparr>originalPath = join sFolder fileName,
             updatedPath = join sFolder fileName,
             episode = None,
             rename = False,
             episodeNumber = None,
             seasonNumber = sNumber,
             seasonFolder = sFolder\<rparr>,
      disabled = None\<rparr>"

text \<open>
  The loop over \<open>episodeRegexes\<close> inside \<open>generateEpisodeName\<close>: the first expression that
  matches decides, and the number is read behind the first \<open>numberStart\<close> characters of the
  matched text. \<open>None\<close> is \<^verbatim>\<open>undefined\<close>: no expression matched.
\<close>

fun parseEpisodeNumber :: "(regex \<times> nat) list \<Rightarrow> string \<Rightarrow> number option" where
  "parseEpisodeNumber [] fileName = None"
| "parseEpisodeNumber ((re, numberStart) # rs) fileName =
     (case match re fileName of
        Some episodeNumberMatch \<Rightarrow> Some (parseInt (drop numberStart episodeNumberMatch))
      | None \<Rightarrow> parseEpisodeNumber rs fileName)"

definition fileIsVideo :: "string \<Rightarrow> bool" where
  "fileIsVideo fileName = (toLowerCase (extname fileName) \<in> set videoFileExtensions)"

text \<open>
  \<open>forceEpisodeNumber\<close> is \<open>None\<close> when the caller leaves it out. \<open>NaN\<close> is equal to no
  number, so \<^verbatim>\<open>find\<close> finds no episode for it.
\<close>

definition generateEpisodeName ::
  "string \<Rightarrow> string \<Rightarrow> int \<Rightarrow> string \<Rightarrow> Episode list \<Rightarrow> number option \<Rightarrow> EpisodeMapping" where
  "generateEpisodeName sName sFolder sNumber fileName episodesInSeason forceEpisodeNumber =
     (let fileExtension = toLowerCase (extname fileName) in
      if \<not> fileIsVideo fileName then unchangedEpisodeMapping sFolder sNumber fileName
      else
        (case (case forceEpisodeNumber of
                 Some forced \<Rightarrow> Some forced
               | None \<Rightarrow> parseEpisodeNumber episodeRegexes fileName) of
           None \<Rightarrow> unchangedEpisodeMapping sFolder sNumber fileName
         | Some NaN \<Rightarrow> unchangedEpisodeMapping sFolder sNumber fileName
         | Some (Num epNumber) \<Rightarrow>
             (case List.find (\<lambda>e. airedEpisodeNumber e = epNumber) episodesInSeason of
                None \<Rightarrow> unchangedEpisodeMapping sFolder sNumber fileName
              | Some e \<Rightarrow>
                  (let prefixedEpisodeNumber =
                         generateEpisodeNumber epNumber (length episodesInSeason);
                       sanatizedName =
                         generateEpisodeFileName fileExtension sName (airedSeason e)
                           (episodeName e) (airedEpisodeNumber e) (length episodesInSeason)
                   in \<lparr>name = sanatizedName,
                       message = ''E'' @ prefixedEpisodeNumber @ '': '' @ fileName
                                  @ '' > '' @ sanatizedName,
                       val = \<lparr>originalPath = join sFolder fileName,
                              updatedPath = join sFolder sanatizedName,
                              episode = Some e,
                              rename = (fileName \<noteq> sanatizedName),
                              episodeNumber = Some prefixedEpisodeNumber,
                              seasonNumber = sNumber,
                              seasonFolder = sFolder\<rparr>,
                       disabled = None\<rparr>))))"

section \<open>One season: sorting the review list\<close>

text \<open>The comparison function; its sign is what \<^verbatim>\<open>sort\<close> looks at.\<close>

definition sortEpisodeMappings :: "EpisodeMapping \<Rightarrow> EpisodeMapping \<Rightarrow> int" where
  "sortEpisodeMappings episodeMapping1 episodeMapping2 =
     (let episode1 = map_option airedEpisodeNumber (episode (val episodeMapping1));
          episode2 = map_option airedEpisodeNumber (episode (val episodeMapping2))
      in if episode1 = episode2 then 0
         else (case episode1 of
                 None \<Rightarrow> 1
               | Some n1 \<Rightarrow> (case episode2 of None \<Rightarrow> - 1 | Some n2 \<Rightarrow> n1 - n2)))"

text \<open>
  \<^verbatim>\<open>Array.prototype.sort\<close> with a comparison function is a stable sort (ECMAScript 2019,
  Node 11 and later). For a comparison function that is a consistent ordering, as
  \<open>sortEpisodeMappings\<close> is (\<open>sortEpisodeMappings_consistent\<close>), every stable sort yields
  the same list (\<open>stable_sort_unique\<close>); the model is the insertion sort that puts an
  element before the first one it does not come after.
\<close>

fun insertBy :: "('a \<Rightarrow> 'a \<Rightarrow> int) \<Rightarrow> 'a \<Rightarrow> 'a list \<Rightarrow> 'a list" where
  "insertBy cmp x [] = [x]"
| "insertBy cmp x (y # ys) = (if cmp x y \<le> 0 then x # y # ys else y # insertBy cmp x ys)"

definition arraySort :: "('a \<Rightarrow> 'a \<Rightarrow> int) \<Rightarrow> 'a list \<Rightarrow> 'a list" where
  "arraySort cmp xs = foldr (insertBy cmp) xs []"

text \<open>
  The file store is a collaborator: \<open>getFileNames\<close> and \<open>getFolderNames\<close> are the listings
  it returns for a directory, given as parameters. (The \<^verbatim>\<open>filter\<close> that drops \<^verbatim>\<open>undefined\<close>
  entries keeps every entry, since \<open>generateEpisodeName\<close> always returns a mapping.)
\<close>

definition generateEpisodeNamesForSeason ::
  "(string \<Rightarrow> string list) \<Rightarrow> string \<Rightarrow> int \<Rightarrow> Series \<Rightarrow> EpisodeMapping list" where
  "generateEpisodeNamesForSeason getFileNames sFolder season seriesDetails =
     (let episodesInSeason = filter (\<lambda>e. airedSeason e = season) (episodes seriesDetails);
          filesInSeasonFolder = getFileNames sFolder
      in arraySort sortEpisodeMappings
           (map (\<lambda>fileName. generateEpisodeName (seriesName seriesDetails) sFolder season
                               fileName episodesInSeason None)
                filesInSeasonFolder))"


section \<open>All seasons: \<open>generateEpisodeNames\<close>\<close>

text \<open>
  A \<open>FolderSeasonMatch\<close> is a folder name with the season number read from it. The
  number is \<^verbatim>\<open>parseInt\<close> of the first run of digits; a folder name without a digit gives
  \<^verbatim>\<open>undefined\<close> (\<open>None\<close>), which the \<^verbatim>\<open>filter\<close> removes. (\<open>parseInt\<close> of a run of digits is
  never \<open>NaN\<close>, see \<open>parseInt_digits\<close>, so that branch is never taken.)
\<close>

type_synonym FolderSeasonMatch = "string \<times> int"

definition folderSeasonMatch :: "string \<Rightarrow> FolderSeasonMatch option" where
  "folderSeasonMatch fName =
     (case match Digits fName of
        None \<Rightarrow> None
      | Some folderSeasonNumber \<Rightarrow>
          (case parseInt folderSeasonNumber of Num n \<Rightarrow> Some (fName, n) | NaN \<Rightarrow> None))"

definition seasonFolders :: "string list \<Rightarrow> FolderSeasonMatch list" where
  "seasonFolders folders = List.map_filter folderSeasonMatch folders"

definition generateEpisodeNames ::
  "(string \<Rightarrow> string list) \<Rightarrow> (string \<Rightarrow> string list) \<Rightarrow> string \<Rightarrow> Series \<Rightarrow> SeasonMapping" where
  "generateEpisodeNames getFolderNames getFileNames seriesDirectory seriesDetails =
     (let sFolders = seasonFolders (getFolderNames seriesDirectory);
          mappings =
            map (\<lambda>(fName, season).
                   generateEpisodeNamesForSeason getFileNames (join seriesDirectory fName)
                     season seriesDetails)
                sFolders
      in foldl (\<lambda>result ((fName, season), ms).
                  setSeason season \<lparr>folderName = Some fName, episodeMappings = ms\<rparr> result)
               [] (zip sFolders mappings))"

section \<open>Manual reassignment\<close>

text \<open>
  The body of \<open>promptEpisodeAssign\<close> after an episode was chosen: every entry of the
  season's list whose name is the name of the entry being reassigned is replaced by the
  mapping for the chosen episode, and the list is sorted again. \<open>None\<close> is the
  \<^verbatim>\<open>TypeError\<close> raised when the structure has no entry for the season.
\<close>

definition assignEpisode ::
  "Series \<Rightarrow> EpisodeMapping \<Rightarrow> Episode \<Rightarrow> SeasonMapping \<Rightarrow> SeasonMapping option" where
  "assignEpisode selectedSeries episodeMapping selectedEpisode currentRenames =
     (let episodesInSeason =
            filter (\<lambda>e. airedSeason e = airedSeason selectedEpisode) (episodes selectedSeries)
      in case getSeason currentRenames (seasonNumber (val episodeMapping)) of
           None \<Rightarrow> None
         | Some seasonMappings \<Rightarrow>
             (let replaced =
                    map (\<lambda>m. if name m = name episodeMapping
                              then generateEpisodeName (seriesName selectedSeries)
                                     (seasonFolder (val episodeMapping))
                                     (seasonNumber (val episodeMapping))
                                     (basename (originalPath (val episodeMapping)))
                                     episodesInSeason
                                     (Some (Num (airedEpisodeNumber selectedEpisode)))
                              else m)
                        (episodeMappings seasonMappings)
              in Some (setSeason (seasonNumber (val episodeMapping))
                         (seasonMappings\<lparr>episodeMappings :=
                                           arraySort sortEpisodeMappings replaced\<rparr>)
                         currentRenames)))"

section \<open>The batch rename executor\<close>




section \<open>Moving a folder: the destination candidates\<close>

text \<open>
  The choices \<open>folderOptions\<close> that \<open>promptMoveFolder\<close> builds for the folders listed in the
  directory shown.
\<close>

definition folderOptions :: "string \<Rightarrow> string list \<Rightarrow> string \<Rightarrow> string ArrayPromptOption list" where
  "folderOptions currentDirectory folders folderToMove =
     map (\<lambda>fName.
            let targetIsInsideSelf = startsWith (join currentDirectory fName) folderToMove
            in \<lparr>name = fName, message = fName, val = fName,
                disabled = (if targetIsInsideSelf
                            then Some (''(can'' @ [CHR 0x27] @ ''t move a folder into itself)'')
                            else None)\<rparr>)
         folders"

text \<open>
  What \<open>promptMoveFolder\<close> sets up: the choices handed to the select list are the entry
  \<^verbatim>\<open>..\<close>, which carries no \<open>disabled\<close> field, followed by \<open>folderOptions\<close>; the folder being
  moved and the target of an accept are kept in the browser; the footer offers the accept
  when the directory shown has no folder of the moved folder's name. Taking a choice opens
  the prompt again in the directory the choice leads to.
\<close>

record MoveFolderPrompt =
  choices :: "string ArrayPromptOption list"
  currentFolderToMove :: string
  currentMoveTarget :: string
  targetIsAcceptable :: bool

definition promptMoveFolder :: "(string \<Rightarrow> string list) \<Rightarrow> string \<Rightarrow> string \<Rightarrow> MoveFolderPrompt" where
  "promptMoveFolder getFolderNames currentDirectory folderToMove =
     (let folders = getFolderNames currentDirectory;
          folderNameToMove = basename folderToMove;
          folderAlreadyExists = (folderNameToMove \<in> set folders)
      in \<lparr>choices = \<lparr>name = ''..'', message = ''..'', val = ''..'', disabled = None\<rparr>
                      # folderOptions currentDirectory folders folderToMove,
          currentFolderToMove = folderToMove,
          currentMoveTarget = join currentDirectory folderNameToMove,
          targetIsAcceptable = (\<not> folderAlreadyExists)\<rparr>)"

definition moveFolderSelected ::
  "(string \<Rightarrow> string list) \<Rightarrow> string \<Rightarrow> string \<Rightarrow> string \<Rightarrow> MoveFolderPrompt" where
  "moveFolderSelected getFolderNames currentDirectory folderToMove selectedFolder =
     promptMoveFolder getFolderNames (join currentDirectory selectedFolder) folderToMove"

text \<open>
  The key \<^verbatim>\<open>m\<close> in the main menu (\<open>handleFolderSelectionKeyPress\<close>): the folder to move is the
  highlighted choice of the directory shown, and the move prompt opens in that directory.
\<close>

definition moveKeyPressed ::
  "(string \<Rightarrow> string list) \<Rightarrow> string \<Rightarrow> string \<Rightarrow> MoveFolderPrompt" where
  "moveKeyPressed getFolderNames currentDirectory highlighted =
     promptMoveFolder getFolderNames currentDirectory (join currentDirectory highlighted)"

text \<open>
  A path lies at or under a folder when it continues the folder's path, and the
  continuation is empty or starts a new piece.
\<close>

definition atOrUnder :: "string \<Rightarrow> string \<Rightarrow> bool" where
  "atOrUnder folder path =
     (startsWith path folder \<and>
      (let rest = drop (length folder) path
       in rest = [] \<or> hd rest = CHR ''/'' \<or> (folder \<noteq> [] \<and> last folder = CHR ''/'')))"

section \<open>The prompts as a state machine\<close>

datatype Prompt =
    FolderSelection | Rename | CreateFolder | DeleteFolder
  | SeriesLanguage | SeriesName | SeriesSuggestions | EpisodeRenames | AssignEpisode
  | MoveFolder | NonVideoPurge | HoistFiles

text \<open>
  Of the fields of the browser, the active prompt and the review structure. The
  collaborators' answers that a transition depends on are given by \<open>World\<close>: whether the
  provider finds a series for the name, and the structure \<open>generateEpisodeNames\<close> builds.
\<close>

record FileBrowser =
  currentPrompt :: Prompt
  currentEpisodeRenames :: "SeasonMapping option"

record World =
  seriesFound :: bool
  generated :: SeasonMapping

definition promptMainMenu :: "FileBrowser \<Rightarrow> FileBrowser" where
  "promptMainMenu b = b\<lparr>currentPrompt := FolderSelection\<rparr>"

definition promptSeriesLanguage :: "FileBrowser \<Rightarrow> FileBrowser" where
  "promptSeriesLanguage b = b\<lparr>currentPrompt := SeriesLanguage, currentEpisodeRenames := None\<rparr>"

definition promptSeriesName :: "FileBrowser \<Rightarrow> FileBrowser" where
  "promptSeriesName b = b\<lparr>currentPrompt := SeriesName\<rparr>"

definition promptSeriesSuggestions :: "World \<Rightarrow> FileBrowser \<Rightarrow> FileBrowser" where
  "promptSeriesSuggestions w b =
     (let b' = b\<lparr>currentPrompt := SeriesSuggestions, currentEpisodeRenames := None\<rparr>
      in if seriesFound w then b' else promptSeriesName b')"

definition promptEpisodeRenames :: "World \<Rightarrow> FileBrowser \<Rightarrow> FileBrowser" where
  "promptEpisodeRenames w b =
     b\<lparr>currentPrompt := EpisodeRenames,
       currentEpisodeRenames :=
         (case currentEpisodeRenames b of
            None \<Rightarrow> Some (generated w)
          | Some renames \<Rightarrow> Some renames)\<rparr>"

definition promptEpisodeAssign :: "FileBrowser \<Rightarrow> FileBrowser" where
  "promptEpisodeAssign b = b\<lparr>currentPrompt := AssignEpisode\<rparr>"

text \<open>
  The backspace key reaches \<open>handleKeyPress\<close>, which asks for each prompt in turn whether
  it is the active one and calls its handler; the handlers of the prompts \<open>rename\<close>,
  \<open>create-folder\<close>, \<open>delete-folder\<close> and \<open>series-name\<close> do not exist, and the handler of
  \<open>folder-selection\<close> does nothing on backspace. (The checks run in the order of the
  source, \<open>folder-selection\<close> first and \<open>assign-episode\<close> last: the composition below
  applies its last line first.)
\<close>

definition whenPrompt :: "Prompt \<Rightarrow> (FileBrowser \<Rightarrow> FileBrowser) \<Rightarrow> FileBrowser \<Rightarrow> FileBrowser" where
  "whenPrompt p handler b = (if currentPrompt b = p then handler b else b)"

definition handleKeyPressBackspace :: "World \<Rightarrow> FileBrowser \<Rightarrow> FileBrowser" where
  "handleKeyPressBackspace w =
     whenPrompt AssignEpisode (promptEpisodeRenames w)
     \<circ> whenPrompt EpisodeRenames (promptSeriesSuggestions w)
     \<circ> whenPrompt SeriesSuggestions promptSeriesName
     \<circ> whenPrompt SeriesLanguage promptMainMenu
     \<circ> whenPrompt NonVideoPurge promptMainMenu
     \<circ> whenPrompt HoistFiles promptMainMenu
     \<circ> whenPrompt MoveFolder promptMainMenu
     \<circ> whenPrompt FolderSelection id"

text \<open>
  The escape key makes the active prompt reject the promise of its \<^verbatim>\<open>run\<close>, which the
  function that opened the prompt handles in its \<^verbatim>\<open>catch\<close> block (the prompts' \<^verbatim>\<open>stop\<close>,
  called by the backspace handlers, only stops listening to keys). The main menu has no
  such block.
\<close>

fun promptRejected :: "Prompt \<Rightarrow> FileBrowser \<Rightarrow> FileBrowser" where
  "promptRejected FolderSelection b = b"
| "promptRejected Rename b = promptMainMenu b"
| "promptRejected CreateFolder b = promptMainMenu b"
| "promptRejected DeleteFolder b = promptMainMenu b"
| "promptRejected HoistFiles b = promptMainMenu b"
| "promptRejected MoveFolder b = promptMainMenu b"
| "promptRejected NonVideoPurge b = promptMainMenu b"
| "promptRejected SeriesLanguage b = promptMainMenu b"
| "promptRejected SeriesName b = promptSeriesLanguage b"
| "promptRejected SeriesSuggestions b = promptSeriesName b"
| "promptRejected EpisodeRenames b = promptSeriesName b"
| "promptRejected AssignEpisode b = promptSeriesName b"

datatype Cancellation = Backspace | Escape

definition cancel :: "World \<Rightarrow> Cancellation \<Rightarrow> FileBrowser \<Rightarrow> FileBrowser" where
  "cancel w key b =
     (case key of
        Backspace \<Rightarrow> handleKeyPressBackspace w b
      | Escape \<Rightarrow> promptRejected (currentPrompt b) b)"

text \<open>The predecessor of each prompt of the series-rename pipeline, as the design names it.\<close>

fun predecessor :: "Prompt \<Rightarrow> Prompt" where
  "predecessor SeriesLanguage = FolderSelection"
| "predecessor SeriesName = SeriesLanguage"
| "predecessor SeriesSuggestions = SeriesName"
| "predecessor EpisodeRenames = SeriesSuggestions"
| "predecessor AssignEpisode = EpisodeRenames"
| "predecessor p = FolderSelection"


section \<open>Notions used to state the properties\<close>

text \<open>
  A name as a directory listing returns it: not empty, without a slash, and neither \<^verbatim>\<open>.\<close>
  nor \<^verbatim>\<open>..\<close>.
\<close>

definition validFileName :: "string \<Rightarrow> bool" where
  "validFileName f = (f \<noteq> [] \<and> CHR ''/'' \<notin> set f \<and> f \<noteq> ''.'' \<and> f \<noteq> ''..'')"

text \<open>Padding with zeros on the left up to a width, as \<^verbatim>\<open>padStart(width, '0')\<close> does.\<close>

definition zeroPad :: "nat \<Rightarrow> string \<Rightarrow> string" where
  "zeroPad width s = replicate (width - length s) (CHR ''0'') @ s"

text \<open>
  The characters a sanitised name must not contain: the seven umlauts and sharp s, the
  question mark, the comma, the double quote, the colon, the space, the tab and the slash.
\<close>

definition unsafeChars :: "char list" where
  "unsafeChars =
     [CHR 0xE4, CHR 0xF6, CHR 0xFC, CHR 0xDF, CHR 0xC4, CHR 0xD6, CHR 0xDC,
      CHR ''?'', CHR '','', CHR 0x22, CHR '':'', CHR '' '', CHR 0x09, CHR ''/'']"

text \<open>
  Position \<open>i\<close> of a file name holds a letter of the class \<open>cs\<close> with a digit behind it;
  and the number written by the first run of digits of a name.
\<close>

definition letterDigitsAt :: "char list \<Rightarrow> string \<Rightarrow> nat \<Rightarrow> bool" where
  "letterDigitsAt cs f i = (Suc i < length f \<and> f ! i \<in> set cs \<and> isDigit (f ! Suc i))"

definition firstDigitRun :: "string \<Rightarrow> string" where
  "firstDigitRun f = takeWhile isDigit (dropWhile (\<lambda>c. \<not> isDigit c) f)"

text \<open>An entry is matched when it carries an episode; its episode number is then defined.\<close>

definition matched :: "EpisodeMapping \<Rightarrow> bool" where
  "matched m = (episode (val m) \<noteq> None)"

definition episodeNo :: "EpisodeMapping \<Rightarrow> int" where
  "episodeNo m = (case episode (val m) of Some e \<Rightarrow> airedEpisodeNumber e | None \<Rightarrow> 0)"

text \<open>
  The list a manual reassignment sorts: the season's list in which every entry of the
  name of the entry being reassigned has been replaced by the mapping for the chosen
  episode (the loop of \<open>promptEpisodeAssign\<close>, as in \<open>assignEpisode\<close>).
\<close>

definition reassigned ::
  "Series \<Rightarrow> EpisodeMapping \<Rightarrow> Episode \<Rightarrow> EpisodeMapping list \<Rightarrow> EpisodeMapping list" where
  "reassigned selectedSeries episodeMapping selectedEpisode ms =
     map (\<lambda>m. if name m = name episodeMapping
               then generateEpisodeName (seriesName selectedSeries)
                      (seasonFolder (val episodeMapping))
                      (seasonNumber (val episodeMapping))
                      (basename (originalPath (val episodeMapping)))
                      (filter (\<lambda>e. airedSeason e = airedSeason selectedEpisode)
                         (episodes selectedSeries))
                      (Some (Num (airedEpisodeNumber selectedEpisode)))
               else m)
         ms"

text \<open>The rename flag of an entry says whether its two paths differ.\<close>

definition renameFlagOk :: "EpisodeMapping \<Rightarrow> bool" where
  "renameFlagOk m = (rename (val m) = (originalPath (val m) \<noteq> updatedPath (val m)))"

definition allMappings :: "SeasonMapping \<Rightarrow> EpisodeMapping list" where
  "allMappings renames = concat (map (\<lambda>(season, entry). episodeMappings entry) renames)"

section \<open>A worked example\<close>

text \<open>
  The directory \<^verbatim>\<open>/tv/Show (2019)\<close> holds the folders \<^verbatim>\<open>Season 1\<close> and \<^verbatim>\<open>Extras\<close>; the
  season folder holds two episodes and a text file. The provider knows two episodes of
  season 1. \<open>failingRename\<close> is a file store that rejects the rename of the first episode
  and carries out every other one.
\<close>

definition exampleSeries :: Series where
  "exampleSeries =
     \<lparr>seriesName = ''Show'',
      episodes =
        [\<lparr>ident = 11, airedSeason = 1, airedEpisodeNumber = 1, episodeName = ''Pilot''\<rparr>,
         \<lparr>ident = 12, airedSeason = 1, airedEpisodeNumber = 2,
          episodeName = ''Second Episode''\<rparr>]\<rparr>"

definition exampleFolders :: "string \<Rightarrow> string list" where
  "exampleFolders d = (if d = ''/tv/Show (2019)'' then [''Season 1'', ''Extras''] else [])"

definition exampleFiles :: "string \<Rightarrow> string list" where
  "exampleFiles d =
     (if d = ''/tv/Show (2019)/Season 1''
      then [''Show.e01.mkv'', ''Show.e02.mkv'', ''readme.txt'']
      else [])"

definition exampleRenames :: SeasonMapping where
  "exampleRenames = generateEpisodeNames exampleFolders exampleFiles ''/tv/Show (2019)'' exampleSeries"


definition reviewing :: FileBrowser where
  "reviewing = \<lparr>currentPrompt = AssignEpisode, currentEpisodeRenames = Some exampleRenames\<rparr>"

definition exampleWorld :: World where
  "exampleWorld = \<lparr>seriesFound = True, generated = exampleRenames\<rparr>"

text \<open>A media directory: the folder \<^verbatim>\<open>/media/A\<close> holds \<^verbatim>\<open>B\<close>, which holds \<^verbatim>\<open>C\<close>.\<close>

definition mediaFolders :: "string \<Rightarrow> string list" where
  "mediaFolders d =
     (if d = ''/media'' then [''A'']
      else if d = ''/media/A'' then [''B'']
      else if d = ''/media/A/B'' then [''C'']
      else [])"

text \<open>
  A season folder in which two files carry the number of the same episode, and a video
  file without a number; and the entry of the second file of the example above, the one
  that a manual reassignment picks.
\<close>

definition duplicateFiles :: "string \<Rightarrow> string list" where
  "duplicateFiles d = [''notes.mkv'', ''Show.e02.mkv'', ''Show.e01.mkv'', ''Show.E01.avi'']"

definition secondFileMapping :: EpisodeMapping where
  "secondFileMapping =
     generateEpisodeName ''Show'' ''/tv/Show (2019)/Season 1'' 1 ''Show.e02.mkv''
       (episodes exampleSeries) None"

section \<open>Moving a folder\<close>

lemma isPrefixOf_iff: "isPrefixOf p s \<longleftrightarrow> (\<exists>r. s = p @ r)"
proof (induction p s rule: isPrefixOf.induct)
  case (3 p ps c s)
  then show ?case by auto
qed auto

lemma atOrUnder_startsWith: "atOrUnder folder path \<Longrightarrow> startsWith path folder"
  by (simp add: atOrUnder_def)

lemma atOrUnder_self: "atOrUnder folder folder"
  by (simp add: atOrUnder_def startsWith_def isPrefixOf_iff)

lemma atOrUnder_nested: "atOrUnder folder (folder @ CHR ''/'' # rest)"
  by (simp add: atOrUnder_def startsWith_def isPrefixOf_iff)

lemma folderOptions_guard:
  "(\<forall>opt \<in> set (folderOptions currentDirectory folders folderToMove).
      atOrUnder folderToMove (join currentDirectory (name opt)) \<longrightarrow> disabled opt \<noteq> None)
   \<and> (\<forall>fName \<in> set folders.
         join currentDirectory fName = folderToMove
         \<or> (\<exists>rest. join currentDirectory fName = folderToMove @ CHR ''/'' # rest)
         \<longrightarrow> (\<exists>opt \<in> set (folderOptions currentDirectory folders folderToMove).
                name opt = fName \<and> disabled opt \<noteq> None))"
proof (intro conjI ballI impI)
  fix opt
  assume "opt \<in> set (folderOptions currentDirectory folders folderToMove)"
    and "atOrUnder folderToMove (join currentDirectory (name opt))"
  then show "disabled opt \<noteq> None"
    by (auto simp: folderOptions_def Let_def dest: atOrUnder_startsWith)
next
  fix fName
  assume f: "fName \<in> set folders"
    and "join currentDirectory fName = folderToMove
         \<or> (\<exists>rest. join currentDirectory fName = folderToMove @ CHR ''/'' # rest)"
  then have "startsWith (join currentDirectory fName) folderToMove"
    by (auto simp: startsWith_def isPrefixOf_iff)
  with f show "\<exists>opt \<in> set (folderOptions currentDirectory folders folderToMove).
                 name opt = fName \<and> disabled opt \<noteq> None"
    by (force simp: folderOptions_def Let_def)
qed

text \<open>
  \<^bold>\<open>C10.\<close> In the move-folder prompt a candidate destination that is the moved folder
  itself, or lies under it, is to be disabled. The choices built for the listed folders
  are (\<open>folderOptions_guard\<close>): when \<^verbatim>\<open>/media/A\<close> is moved, \<^verbatim>\<open>A\<close> is disabled in \<^verbatim>\<open>/media\<close> and \<^verbatim>\<open>B\<close>
  is disabled in \<^verbatim>\<open>/media/A\<close>. The choice \<^verbatim>\<open>..\<close> is not: with \<^verbatim>\<open>..\<close> highlighted in \<^verbatim>\<open>/media/A/B\<close>,
  the key \<^verbatim>\<open>m\<close> moves \<^verbatim>\<open>/media/A\<close> and opens the prompt in \<^verbatim>\<open>/media/A/B\<close>, where \<^verbatim>\<open>..\<close> leads to the
  moved folder itself and stays enabled beside the disabled \<^verbatim>\<open>C\<close>; the accept is offered
  there for the target \<^verbatim>\<open>/media/A/B/A\<close>, and after \<^verbatim>\<open>..\<close> for the target \<^verbatim>\<open>/media/A/A\<close>.
\<close>

theorem parent_choice_escapes_guard:
  "currentFolderToMove (moveKeyPressed mediaFolders ''/media/A/B'' ''..'') = ''/media/A''
   \<and> map (\<lambda>opt. (name opt, join ''/media/A/B'' (name opt), disabled opt))
         (choices (moveKeyPressed mediaFolders ''/media/A/B'' ''..''))
       = [(''..'', ''/media/A'', None),
          (''C'', ''/media/A/B/C'', Some (''(can'' @ [CHR 0x27] @ ''t move a folder into itself)''))]
   \<and> atOrUnder ''/media/A'' (join ''/media/A/B'' ''..'')
   \<and> targetIsAcceptable (moveKeyPressed mediaFolders ''/media/A/B'' ''..'')
   \<and> currentMoveTarget (moveKeyPressed mediaFolders ''/media/A/B'' ''..'') = ''/media/A/B/A''
   \<and> targetIsAcceptable (moveFolderSelected mediaFolders ''/media/A/B'' ''/media/A'' ''..'')
   \<and> currentMoveTarget (moveFolderSelected mediaFolders ''/media/A/B'' ''/media/A'' ''..'')
       = ''/media/A/A''
   \<and> map (\<lambda>opt. (name opt, disabled opt))
         (choices (moveFolderSelected mediaFolders ''/media/A/B'' ''/media/A'' ''..''))
       = [(''..'', None),
          (''B'', Some (''(can'' @ [CHR 0x27] @ ''t move a folder into itself)''))]
   \<and> map (\<lambda>opt. (name opt, disabled opt))
         (choices (moveKeyPressed mediaFolders ''/media'' ''A''))
       = [(''..'', None),
          (''A'', Some (''(can'' @ [CHR 0x27] @ ''t move a folder into itself)''))]"
  by code_simp

section \<open>Cancelling a prompt\<close>

lemma cancel_series_language:
  "currentPrompt b = SeriesLanguage \<Longrightarrow> currentPrompt (cancel w key b) = FolderSelection"
  by (cases key)
     (simp_all add: cancel_def handleKeyPressBackspace_def whenPrompt_def promptMainMenu_def)

lemma cancel_series_suggestions:
  "currentPrompt b = SeriesSuggestions \<Longrightarrow> currentPrompt (cancel w key b) = SeriesName"
  by (cases key)
     (simp_all add: cancel_def handleKeyPressBackspace_def whenPrompt_def promptSeriesName_def)

lemma cancel_series_name_escape:
  "currentPrompt b = SeriesName \<Longrightarrow> currentPrompt (cancel w Escape b) = SeriesLanguage"
  by (simp add: cancel_def promptSeriesLanguage_def)

lemma cancel_episode_renames_backspace:
  "currentPrompt b = EpisodeRenames \<Longrightarrow> seriesFound w \<Longrightarrow>
   currentPrompt (cancel w Backspace b) = SeriesSuggestions"
  by (simp add: cancel_def handleKeyPressBackspace_def whenPrompt_def
        promptSeriesSuggestions_def Let_def)

lemma cancel_episode_renames_escape:
  "currentPrompt b = EpisodeRenames \<Longrightarrow> currentPrompt (cancel w Escape b) = SeriesName"
  by (simp add: cancel_def promptSeriesName_def)

lemma cancel_assign_episode_backspace:
  "currentPrompt b = AssignEpisode \<Longrightarrow> currentEpisodeRenames b = Some renames \<Longrightarrow>
   currentPrompt (cancel w Backspace b) = EpisodeRenames
   \<and> currentEpisodeRenames (cancel w Backspace b) = Some renames"
  by (simp add: cancel_def handleKeyPressBackspace_def whenPrompt_def promptEpisodeRenames_def)

text \<open>
  \<^bold>\<open>C6.\<close> In the series-rename pipeline a cancellation is to lead to the predecessor of the
  active prompt. With backspace it does (the lemmas above), and escape does so for the
  language, the series name and the suggestions. While an episode is being assigned,
  however, the two keys part: backspace returns to the review list and keeps the
  structure, whereas escape opens the series-name prompt, which is not the predecessor.
\<close>

theorem assign_episode_escape_opens_series_name:
  "currentPrompt reviewing = AssignEpisode
   \<and> predecessor (currentPrompt reviewing) = EpisodeRenames
   \<and> currentPrompt (cancel exampleWorld Backspace reviewing) = EpisodeRenames
   \<and> currentEpisodeRenames (cancel exampleWorld Backspace reviewing) = Some exampleRenames
   \<and> currentPrompt (cancel exampleWorld Escape reviewing) = SeriesName"
  by (simp add: reviewing_def cancel_def handleKeyPressBackspace_def whenPrompt_def
        promptEpisodeRenames_def promptSeriesName_def)

section \<open>The batch rename executor\<close>


lemma exampleRenames_value:
  "map (\<lambda>m. (originalPath (val m), updatedPath (val m), rename (val m)))
       (allMappings exampleRenames)
   = [(''/tv/Show (2019)/Season 1/Show.e01.mkv'',
       ''/tv/Show (2019)/Season 1/Show.S01E01.Pilot.mkv'', True),
      (''/tv/Show (2019)/Season 1/Show.e02.mkv'',
       ''/tv/Show (2019)/Season 1/Show.S01E02.Second.Episode.mkv'', True),
      (''/tv/Show (2019)/Season 1/readme.txt'',
       ''/tv/Show (2019)/Season 1/readme.txt'', False)]"
  by code_simp



section \<open>The episode number parser\<close>

lemma firstDigitRun_digits: "\<forall>c \<in> set (firstDigitRun f). isDigit c"
  by (auto simp: firstDigitRun_def dest: set_takeWhileD)

lemma firstDigitRun_nonempty: "\<exists>c \<in> set f. isDigit c \<Longrightarrow> firstDigitRun f \<noteq> []"
proof -
  assume "\<exists>c \<in> set f. isDigit c"
  then have "dropWhile (\<lambda>c. \<not> isDigit c) f \<noteq> []" by auto
  then have "isDigit (hd (dropWhile (\<lambda>c. \<not> isDigit c) f))"
    using hd_dropWhile [of "\<lambda>c. \<not> isDigit c" f] by simp
  with \<open>dropWhile (\<lambda>c. \<not> isDigit c) f \<noteq> []\<close> show ?thesis
    by (cases "dropWhile (\<lambda>c. \<not> isDigit c) f") (auto simp: firstDigitRun_def)
qed

lemma match_Digits:
  "match Digits f = (if \<exists>c \<in> set f. isDigit c then Some (firstDigitRun f) else None)"
  by (induction f) (auto simp: firstDigitRun_def)

lemma parseInt_digits:
  "ds \<noteq> [] \<Longrightarrow> \<forall>c \<in> set ds. isDigit c \<Longrightarrow> parseInt ds = Num (digitsValue ds)"
  by (simp add: parseInt_def takeWhile_eq_all_conv[THEN iffD2])

lemma match_Digits_digits:
  "match Digits f = Some m \<Longrightarrow> m \<noteq> [] \<and> (\<forall>c \<in> set m. isDigit c)"
  using firstDigitRun_digits firstDigitRun_nonempty
  by (auto simp: match_Digits split: if_splits)

lemma matchAt_ClassDigits:
  "matchAt (ClassDigits cs) f
     = (if letterDigitsAt cs f 0 then Some (f ! 0 # takeWhile isDigit (drop 1 f)) else None)"
proof (cases f)
  case Nil
  then show ?thesis by (simp add: letterDigitsAt_def)
next
  case (Cons c s)
  then show ?thesis
    by (cases s) (auto simp: letterDigitsAt_def)
qed

lemma letterDigitsAt_Cons: "letterDigitsAt cs (c # s) (Suc j) = letterDigitsAt cs s j"
  by (simp add: letterDigitsAt_def)

lemma match_ClassDigits_first:
  "letterDigitsAt cs f i \<Longrightarrow> \<forall>j<i. \<not> letterDigitsAt cs f j \<Longrightarrow>
   match (ClassDigits cs) f = Some (f ! i # takeWhile isDigit (drop (Suc i) f))"
proof (induction f arbitrary: i)
  case Nil
  then show ?case by (simp add: letterDigitsAt_def)
next
  case (Cons c s)
  show ?case
  proof (cases i)
    case 0
    with Cons.prems(1) show ?thesis
      using matchAt_ClassDigits [of cs "c # s"] by simp
  next
    case (Suc k)
    with Cons.prems have no0: "\<not> letterDigitsAt cs (c # s) 0"
      and k: "letterDigitsAt cs s k" and lt: "\<forall>j<k. \<not> letterDigitsAt cs s j"
      by (auto simp: letterDigitsAt_Cons)
    from no0 have "matchAt (ClassDigits cs) (c # s) = None"
      using matchAt_ClassDigits [of cs "c # s"] by simp
    with Cons.IH [OF k lt] Suc show ?thesis by simp
  qed
qed

lemma match_ClassDigits_none:
  "\<forall>j. \<not> letterDigitsAt cs f j \<Longrightarrow> match (ClassDigits cs) f = None"
proof (induction f)
  case Nil
  then show ?case by simp
next
  case (Cons c s)
  then have "\<not> letterDigitsAt cs (c # s) 0" and "\<forall>j. \<not> letterDigitsAt cs s j"
    using letterDigitsAt_Cons [of cs c s] by blast+
  with Cons.IH show ?case
    using matchAt_ClassDigits [of cs "c # s"] by simp
qed

lemma match_ClassDigits_shape:
  "match (ClassDigits cs) f = Some m \<Longrightarrow>
   \<exists>c ds. m = c # ds \<and> ds \<noteq> [] \<and> (\<forall>d \<in> set ds. isDigit d)"
proof (induction f)
  case Nil
  then show ?case by simp
next
  case (Cons c s)
  show ?case
  proof (cases "matchAt (ClassDigits cs) (c # s)")
    case None
    with Cons show ?thesis by simp
  next
    case (Some m')
    with Cons.prems have "m' = m" by simp
    with Some show ?thesis
      by (auto simp: Let_def split: if_splits option.splits dest: set_takeWhileD)
  qed
qed


lemma parse_E:
  assumes "letterDigitsAt cs f i" "\<forall>j<i. \<not> letterDigitsAt cs f j"
  shows "match (ClassDigits cs) f = Some (f ! i # takeWhile isDigit (drop (Suc i) f))
         \<and> parseInt (drop 1 (f ! i # takeWhile isDigit (drop (Suc i) f)))
             = Num (digitsValue (takeWhile isDigit (drop (Suc i) f)))"
proof -
  from assms(1) have "isDigit (hd (drop (Suc i) f))" "drop (Suc i) f \<noteq> []"
    by (simp_all add: letterDigitsAt_def hd_drop_conv_nth)
  then have ne: "takeWhile isDigit (drop (Suc i) f) \<noteq> []"
    by (cases "drop (Suc i) f") auto
  have "\<forall>c \<in> set (takeWhile isDigit (drop (Suc i) f)). isDigit c"
    by (auto dest: set_takeWhileD)
  with ne show ?thesis
    using match_ClassDigits_first [OF assms] parseInt_digits by simp
qed

lemma no_letterDigits_iff:
  "(\<forall>j. \<not> letterDigitsAt cs f j) \<longleftrightarrow> list_all (\<lambda>j. \<not> letterDigitsAt cs f j) [0..<length f]"
  by (auto simp: list_all_iff letterDigitsAt_def)

lemma first_letterDigits_iff:
  "(\<forall>j<i. \<not> letterDigitsAt cs f j) \<longleftrightarrow> list_all (\<lambda>j. \<not> letterDigitsAt cs f j) [0..<i]"
  by (auto simp: list_all_iff)

text \<open>
  \<^bold>\<open>C4.\<close> The episode number parser tries the patterns in a fixed order and stops at the
  first that matches. If the file name has an \<^verbatim>\<open>e\<close> or \<^verbatim>\<open>E\<close> with a digit behind it, the
  number is the run of digits behind the leftmost such letter. If it has none, but an
  \<^verbatim>\<open>x\<close> or \<^verbatim>\<open>X\<close> with a digit behind it, the number is the run of digits behind the leftmost
  such letter. If it has neither, but a digit, the number is the first run of digits.
  A file name without a digit matches no pattern and gives no episode number. In
  particular the parser reads 7 from \<^verbatim>\<open>Show.E07.mkv\<close>, \<^verbatim>\<open>Show.7x07.mkv\<close> and \<^verbatim>\<open>Show.07.mkv\<close>.
\<close>

theorem episode_number_parser_priority:
  "(letterDigitsAt ''eE'' f i \<and> (\<forall>j<i. \<not> letterDigitsAt ''eE'' f j)
      \<longrightarrow> parseEpisodeNumber episodeRegexes f
            = Some (Num (digitsValue (takeWhile isDigit (drop (Suc i) f)))))
   \<and> ((\<forall>j. \<not> letterDigitsAt ''eE'' f j)
        \<and> letterDigitsAt ''xX'' f i \<and> (\<forall>j<i. \<not> letterDigitsAt ''xX'' f j)
      \<longrightarrow> parseEpisodeNumber episodeRegexes f
            = Some (Num (digitsValue (takeWhile isDigit (drop (Suc i) f)))))
   \<and> ((\<forall>j. \<not> letterDigitsAt ''eE'' f j) \<and> (\<forall>j. \<not> letterDigitsAt ''xX'' f j)
        \<and> (\<exists>c \<in> set f. isDigit c)
      \<longrightarrow> parseEpisodeNumber episodeRegexes f = Some (Num (digitsValue (firstDigitRun f))))
   \<and> ((\<forall>c \<in> set f. \<not> isDigit c) \<longrightarrow> parseEpisodeNumber episodeRegexes f = None)
   \<and> parseEpisodeNumber episodeRegexes ''Show.E07.mkv'' = Some (Num 7)
   \<and> parseEpisodeNumber episodeRegexes ''Show.7x07.mkv'' = Some (Num 7)
   \<and> parseEpisodeNumber episodeRegexes ''Show.07.mkv'' = Some (Num 7)"
proof (intro conjI impI)
  assume "letterDigitsAt ''eE'' f i \<and> (\<forall>j<i. \<not> letterDigitsAt ''eE'' f j)"
  then show "parseEpisodeNumber episodeRegexes f
               = Some (Num (digitsValue (takeWhile isDigit (drop (Suc i) f))))"
    using parse_E [of "''eE''" f i] by (simp add: episodeRegexes_def)
next
  assume a: "(\<forall>j. \<not> letterDigitsAt ''eE'' f j)
        \<and> letterDigitsAt ''xX'' f i \<and> (\<forall>j<i. \<not> letterDigitsAt ''xX'' f j)"
  then have "match (ClassDigits ''eE'') f = None"
    using match_ClassDigits_none by blast
  with a show "parseEpisodeNumber episodeRegexes f
               = Some (Num (digitsValue (takeWhile isDigit (drop (Suc i) f))))"
    using parse_E [of "''xX''" f i] by (simp add: episodeRegexes_def)
next
  assume a: "(\<forall>j. \<not> letterDigitsAt ''eE'' f j) \<and> (\<forall>j. \<not> letterDigitsAt ''xX'' f j)
        \<and> (\<exists>c \<in> set f. isDigit c)"
  then have "match (ClassDigits ''eE'') f = None" "match (ClassDigits ''xX'') f = None"
    using match_ClassDigits_none by blast+
  moreover from a have "match Digits f = Some (firstDigitRun f)"
    by (simp add: match_Digits)
  moreover from a have "parseInt (firstDigitRun f) = Num (digitsValue (firstDigitRun f))"
    using parseInt_digits firstDigitRun_digits firstDigitRun_nonempty by blast
  ultimately show "parseEpisodeNumber episodeRegexes f
                     = Some (Num (digitsValue (firstDigitRun f)))"
    by (simp add: episodeRegexes_def)
next
  assume a: "\<forall>c \<in> set f. \<not> isDigit c"
  then have "\<forall>j. \<not> letterDigitsAt cs f j" for cs
    by (auto simp: letterDigitsAt_def)
  then have "match (ClassDigits cs) f = None" for cs
    using match_ClassDigits_none by blast
  moreover from a have "match Digits f = None"
    by (simp add: match_Digits)
  ultimately show "parseEpisodeNumber episodeRegexes f = None"
    by (simp add: episodeRegexes_def)
next
  show "parseEpisodeNumber episodeRegexes ''Show.E07.mkv'' = Some (Num 7)"
    by (simp add: episodeRegexes_def isDigit_def parseInt_def digitsValue_def digitValue_def)
  show "parseEpisodeNumber episodeRegexes ''Show.7x07.mkv'' = Some (Num 7)"
    by (simp add: episodeRegexes_def isDigit_def parseInt_def digitsValue_def digitValue_def)
  show "parseEpisodeNumber episodeRegexes ''Show.07.mkv'' = Some (Num 7)"
    by (simp add: episodeRegexes_def isDigit_def parseInt_def digitsValue_def digitValue_def)
qed

theorem episode_number_parser_priority_witness:
  "letterDigitsAt ''eE'' ''Show.E07.mkv'' 5
   \<and> parseEpisodeNumber episodeRegexes ''Show.E07.mkv''
       = Some (Num (digitsValue (takeWhile isDigit (drop 6 ''Show.E07.mkv''))))
   \<and> letterDigitsAt ''xX'' ''Show.7x07.mkv'' 6
   \<and> parseEpisodeNumber episodeRegexes ''Show.7x07.mkv''
       = Some (Num (digitsValue (takeWhile isDigit (drop 7 ''Show.7x07.mkv''))))
   \<and> parseEpisodeNumber episodeRegexes ''Show.07.mkv''
       = Some (Num (digitsValue (firstDigitRun ''Show.07.mkv'')))
   \<and> digitsValue (firstDigitRun ''Show.07.mkv'') = 7
   \<and> parseEpisodeNumber episodeRegexes ''Show.mkv'' = None"
proof -
  have e1: "letterDigitsAt ''eE'' ''Show.E07.mkv'' 5"
    by (simp add: letterDigitsAt_def isDigit_def)
  have e2: "\<forall>j<5. \<not> letterDigitsAt ''eE'' ''Show.E07.mkv'' j"
    unfolding first_letterDigits_iff by code_simp
  have x0: "\<forall>j. \<not> letterDigitsAt ''eE'' ''Show.7x07.mkv'' j"
    unfolding no_letterDigits_iff by code_simp
  have x1: "letterDigitsAt ''xX'' ''Show.7x07.mkv'' 6"
    by (simp add: letterDigitsAt_def isDigit_def)
  have x2: "\<forall>j<6. \<not> letterDigitsAt ''xX'' ''Show.7x07.mkv'' j"
    unfolding first_letterDigits_iff by code_simp
  have d0: "\<forall>j. \<not> letterDigitsAt ''eE'' ''Show.07.mkv'' j"
    unfolding no_letterDigits_iff by code_simp
  have d1: "\<forall>j. \<not> letterDigitsAt ''xX'' ''Show.07.mkv'' j"
    unfolding no_letterDigits_iff by code_simp
  have d2: "\<exists>c \<in> set ''Show.07.mkv''. isDigit c"
    by (simp add: isDigit_def)
  have d3: "digitsValue (firstDigitRun ''Show.07.mkv'') = 7"
    by (simp add: firstDigitRun_def isDigit_def digitsValue_def digitValue_def)
  have n0: "\<forall>c \<in> set ''Show.mkv''. \<not> isDigit c"
    by (simp add: isDigit_def)
  from episode_number_parser_priority [of "''Show.E07.mkv''" 5] e1 e2
  have r1: "parseEpisodeNumber episodeRegexes ''Show.E07.mkv''
       = Some (Num (digitsValue (takeWhile isDigit (drop 6 ''Show.E07.mkv''))))"
    by simp
  from episode_number_parser_priority [of "''Show.7x07.mkv''" 6] x0 x1 x2
  have r2: "parseEpisodeNumber episodeRegexes ''Show.7x07.mkv''
       = Some (Num (digitsValue (takeWhile isDigit (drop 7 ''Show.7x07.mkv''))))"
    by simp
  from episode_number_parser_priority [of "''Show.07.mkv''" 0] d0 d1 d2
  have r3: "parseEpisodeNumber episodeRegexes ''Show.07.mkv''
       = Some (Num (digitsValue (firstDigitRun ''Show.07.mkv'')))"
    by blast
  from episode_number_parser_priority [of "''Show.mkv''" 0] n0
  have r4: "parseEpisodeNumber episodeRegexes ''Show.mkv'' = None"
    by blast
  from e1 x1 r1 r2 r3 r4 d3 show ?thesis by blast
qed

section \<open>Files that stay as they are\<close>

lemma set_insertBy: "set (insertBy cmp x ys) = insert x (set ys)"
  by (induction ys) auto

lemma set_arraySort: "set (arraySort cmp xs) = set xs"
  by (induction xs) (simp_all add: arraySort_def set_insertBy)

lemma unchanged_fields:
  "name (unchangedEpisodeMapping sFolder sNumber f) = f
   \<and> message (unchangedEpisodeMapping sFolder sNumber f) = ''--- '' @ f
   \<and> originalPath (val (unchangedEpisodeMapping sFolder sNumber f)) = join sFolder f
   \<and> updatedPath (val (unchangedEpisodeMapping sFolder sNumber f)) = join sFolder f
   \<and> episode (val (unchangedEpisodeMapping sFolder sNumber f)) = None
   \<and> rename (val (unchangedEpisodeMapping sFolder sNumber f)) = False"
  by (simp add: unchangedEpisodeMapping_def)

lemma find_Some_P: "List.find P xs = Some x \<Longrightarrow> P x \<and> x \<in> set xs"
  by (induction xs) (auto split: if_splits)

lemma generateEpisodeName_unchanged:
  assumes "\<not> fileIsVideo f
           \<or> parseEpisodeNumber episodeRegexes f = None
           \<or> (\<exists>n. parseEpisodeNumber episodeRegexes f = Some (Num n)
                   \<and> (\<forall>e \<in> set eps. airedEpisodeNumber e \<noteq> n))"
  shows "generateEpisodeName sName sFolder sNumber f eps None
           = unchangedEpisodeMapping sFolder sNumber f"
proof -
  consider "\<not> fileIsVideo f" | "parseEpisodeNumber episodeRegexes f = None"
    | n where "parseEpisodeNumber episodeRegexes f = Some (Num n)"
        "\<forall>e \<in> set eps. airedEpisodeNumber e \<noteq> n"
    using assms by auto
  then show ?thesis
  proof cases
    case 1
    then show ?thesis by (simp add: generateEpisodeName_def)
  next
    case 2
    then show ?thesis by (simp add: generateEpisodeName_def)
  next
    case 3
    from 3(2) have "List.find (\<lambda>e. airedEpisodeNumber e = n) eps = None"
      by (simp add: find_None_iff)
    with 3(1) show ?thesis by (simp add: generateEpisodeName_def)
  qed
qed

text \<open>
  \<^bold>\<open>C8\<close>, as the claim states it, fails in its last part: the line shown for an unchanged
  mapping is not the file name itself but the file name behind the marker \<^verbatim>\<open>---\<close>. The
  text file of the example is not a video file; it is listed as \<^verbatim>\<open>--- readme.txt\<close>.
\<close>

theorem unchanged_mapping_label_has_marker:
  "\<not> fileIsVideo ''readme.txt''
   \<and> message (generateEpisodeName ''Show'' ''/tv/Show (2019)/Season 1'' 1 ''readme.txt''
                 (episodes exampleSeries) None)
       = ''--- readme.txt''
   \<and> message (generateEpisodeName ''Show'' ''/tv/Show (2019)/Season 1'' 1 ''readme.txt''
                 (episodes exampleSeries) None)
       \<noteq> ''readme.txt''"
  by code_simp

text \<open>
  \<^bold>\<open>C8\<close>, amended. A file of a season folder that is not a video file, or is a video file
  in which the parser finds no episode number, or whose number is the number of no episode
  of that season, gets an unchanged mapping from the builder: the proposed path is the
  original path, there is no matched episode, the rename flag is false, the entry's name
  is the file name itself, and the line shown for it is the file name behind the marker
  \<^verbatim>\<open>---\<close>.
\<close>

theorem unmatched_files_stay_unchanged:
  assumes "f \<in> set (getFileNames sFolder)"
    and "\<not> fileIsVideo f
         \<or> parseEpisodeNumber episodeRegexes f = None
         \<or> (\<exists>n. parseEpisodeNumber episodeRegexes f = Some (Num n)
                 \<and> (\<forall>e \<in> set (episodes seriesDetails).
                        airedSeason e = season \<longrightarrow> airedEpisodeNumber e \<noteq> n))"
  shows "\<exists>m \<in> set (generateEpisodeNamesForSeason getFileNames sFolder season seriesDetails).
           m = generateEpisodeName (seriesName seriesDetails) sFolder season f
                 (filter (\<lambda>e. airedSeason e = season) (episodes seriesDetails)) None
           \<and> originalPath (val m) = join sFolder f
           \<and> updatedPath (val m) = originalPath (val m)
           \<and> episode (val m) = None
           \<and> rename (val m) = False
           \<and> name m = f
           \<and> message m = ''--- '' @ f"
proof -
  let ?eps = "filter (\<lambda>e. airedSeason e = season) (episodes seriesDetails)"
  let ?m = "generateEpisodeName (seriesName seriesDetails) sFolder season f ?eps None"
  from assms(2) have "?m = unchangedEpisodeMapping sFolder season f"
    by (intro generateEpisodeName_unchanged) auto
  moreover from assms(1)
  have "?m \<in> set (generateEpisodeNamesForSeason getFileNames sFolder season seriesDetails)"
    by (simp add: generateEpisodeNamesForSeason_def Let_def set_arraySort)
  ultimately show ?thesis
    using unchanged_fields [of sFolder season f] by metis
qed


theorem unmatched_files_stay_unchanged_witness:
  "''readme.txt'' \<in> set (exampleFiles ''/tv/Show (2019)/Season 1'')
   \<and> \<not> fileIsVideo ''readme.txt''
   \<and> (\<exists>m. m \<in> set (generateEpisodeNamesForSeason exampleFiles ''/tv/Show (2019)/Season 1'' 1
                       exampleSeries)
           \<and> originalPath (val m) = ''/tv/Show (2019)/Season 1/readme.txt''
           \<and> updatedPath (val m) = originalPath (val m)
           \<and> episode (val m) = None
           \<and> rename (val m) = False
           \<and> name m = ''readme.txt''
           \<and> message m = ''--- readme.txt'')"
proof -
  have a: "''readme.txt'' \<in> set (exampleFiles ''/tv/Show (2019)/Season 1'')"
    by (simp add: exampleFiles_def)
  have b: "\<not> fileIsVideo ''readme.txt''"
    by code_simp
  have j: "join ''/tv/Show (2019)/Season 1'' ''readme.txt'' = ''/tv/Show (2019)/Season 1/readme.txt''"
    by (simp add: join_def normalize_def)
  from unmatched_files_stay_unchanged [of "''readme.txt''" exampleFiles
         "''/tv/Show (2019)/Season 1''" exampleSeries 1, OF a] b
  obtain m where "m \<in> set (generateEpisodeNamesForSeason exampleFiles ''/tv/Show (2019)/Season 1'' 1
                       exampleSeries)"
           "originalPath (val m) = join ''/tv/Show (2019)/Season 1'' ''readme.txt''"
           "updatedPath (val m) = originalPath (val m)"
           "episode (val m) = None"
           "rename (val m) = False"
           "name m = ''readme.txt''"
           "message m = ''--- '' @ ''readme.txt''"
    by blast
  with a b j show ?thesis by auto
qed

section \<open>The proposed file name\<close>

lemma length_showNat_small: "n < 10 \<Longrightarrow> length (showNat n) = 1"
  by (simp add: showNat.simps)

lemma length_showNat_ge2: "10 \<le> n \<Longrightarrow> 2 \<le> length (showNat n)"
  by (subst showNat.simps) (simp add: Suc_le_eq showNat.simps[of "n div 10"])

lemma length_showNat_two: "10 \<le> n \<Longrightarrow> n < 100 \<Longrightarrow> length (showNat n) = 2"
  by (subst showNat.simps) (simp add: length_showNat_small)

lemma length_showNat_ge3: "100 \<le> n \<Longrightarrow> 3 \<le> length (showNat n)"
proof -
  assume "100 \<le> n"
  then have "10 \<le> n div 10" by simp
  then have "2 \<le> length (showNat (n div 10))" by (rule length_showNat_ge2)
  with \<open>100 \<le> n\<close> show ?thesis
    by (subst showNat.simps) simp
qed

lemma twoZero_zeroPad: "0 \<le> n \<Longrightarrow> twoZero n = zeroPad 2 (showInt n)"
proof (cases "n < 10")
  case True
  assume "0 \<le> n"
  with True have "length (showNat (nat n)) = 1" by (intro length_showNat_small) simp
  with True \<open>0 \<le> n\<close> show ?thesis
    by (simp add: twoZero_def zeroPad_def showInt_def)
next
  case False
  assume "0 \<le> n"
  with False have "2 \<le> length (showNat (nat n))" by (intro length_showNat_ge2) simp
  with False \<open>0 \<le> n\<close> show ?thesis
    by (simp add: twoZero_def zeroPad_def showInt_def)
qed

lemma threeZero_zeroPad: "0 \<le> n \<Longrightarrow> threeZero n = zeroPad 3 (showInt n)"
proof -
  assume n: "0 \<le> n"
  consider "n < 10" | "10 \<le> n" "n < 100" | "100 \<le> n" by linarith
  then show ?thesis
  proof cases
    case 1
    with n have "length (showNat (nat n)) = 1" by (intro length_showNat_small) simp
    with 1 n show ?thesis
      by (simp add: threeZero_def twoZero_def zeroPad_def showInt_def numeral_3_eq_3)
  next
    case 2
    with n have "length (showNat (nat n)) = 2" by (intro length_showNat_two) simp_all
    with 2 n show ?thesis
      by (simp add: threeZero_def twoZero_def zeroPad_def showInt_def)
  next
    case 3
    with n have "3 \<le> length (showNat (nat n))" by (intro length_showNat_ge3) simp
    with 3 n show ?thesis
      by (simp add: threeZero_def zeroPad_def showInt_def)
  qed
qed

lemma generateEpisodeNumber_zeroPad:
  "0 \<le> n \<Longrightarrow>
   generateEpisodeNumber n k = zeroPad (if k < 100 then 2 else 3) (showInt n)"
  by (simp add: generateEpisodeNumber_def twoZero_zeroPad threeZero_zeroPad)

text \<open>
  \<^bold>\<open>C5.\<close> For a video file matched to an episode, the proposed file name is the sanitised
  text \<^verbatim>\<open><series>.S<season>E<ordinal>.<title><extension>\<close>: the season padded with zeros to
  two digits, the ordinal (the episode's number) padded to two digits when the season has
  fewer than 100 episodes and to three digits otherwise, and the extension that of the
  file in lower case, one of the video extensions. The proposed path is that name in the
  season folder. (Season and episode numbers are not negative.) In particular
  \<open>generateEpisodeNumber 7 45\<close> is \<^verbatim>\<open>07\<close> and \<open>generateEpisodeNumber 7 150\<close> is \<^verbatim>\<open>007\<close>.
\<close>

theorem proposed_file_name_format:
  assumes "generateEpisodeName sName sFolder sNumber f eps force = m"
    and "episode (val m) = Some e"
    and "0 \<le> airedSeason e" and "0 \<le> airedEpisodeNumber e"
  shows "name m = sanitize (sName @ ''.S'' @ zeroPad 2 (showInt (airedSeason e)) @ ''E''
                     @ zeroPad (if length eps < 100 then 2 else 3)
                         (showInt (airedEpisodeNumber e))
                     @ ''.'' @ episodeName e @ toLowerCase (extname f))
         \<and> updatedPath (val m) = join sFolder (name m)
         \<and> toLowerCase (extname f) \<in> set videoFileExtensions
         \<and> e \<in> set eps
         \<and> generateEpisodeNumber 7 45 = ''07''
         \<and> generateEpisodeNumber 7 150 = ''007''"
proof -
  have ex: "generateEpisodeNumber 7 45 = ''07''" "generateEpisodeNumber 7 150 = ''007''"
    by code_simp+
  from assms(1,2) obtain n where
      v: "fileIsVideo f"
    and fd: "List.find (\<lambda>e. airedEpisodeNumber e = n) eps = Some e"
    and nm: "name m = generateEpisodeFileName (toLowerCase (extname f)) sName (airedSeason e)
                        (episodeName e) (airedEpisodeNumber e) (length eps)"
    and up: "updatedPath (val m) = join sFolder (name m)"
    by (auto simp: generateEpisodeName_def Let_def unchangedEpisodeMapping_def
             split: option.splits number.splits if_splits)
  from fd have "e \<in> set eps" by (auto dest: find_Some_P)
  with v nm up ex assms(3,4) show ?thesis
    by (simp add: generateEpisodeFileName_def fileIsVideo_def
          twoZero_zeroPad generateEpisodeNumber_zeroPad)
qed


theorem proposed_file_name_format_witness:
  "episode (val (generateEpisodeName ''Show'' ''/tv/Show (2019)/Season 1'' 1 ''Show.e02.mkv''
                   (episodes exampleSeries) None))
     = Some (episodes exampleSeries ! 1)
   \<and> 0 \<le> airedSeason (episodes exampleSeries ! 1)
   \<and> 0 \<le> airedEpisodeNumber (episodes exampleSeries ! 1)
   \<and> name (generateEpisodeName ''Show'' ''/tv/Show (2019)/Season 1'' 1 ''Show.e02.mkv''
              (episodes exampleSeries) None)
       = ''Show.S01E02.Second.Episode.mkv''
   \<and> updatedPath (val (generateEpisodeName ''Show'' ''/tv/Show (2019)/Season 1'' 1
                          ''Show.e02.mkv'' (episodes exampleSeries) None))
       = ''/tv/Show (2019)/Season 1/Show.S01E02.Second.Episode.mkv''"
proof -
  let ?m = "generateEpisodeName ''Show'' ''/tv/Show (2019)/Season 1'' 1 ''Show.e02.mkv''
              (episodes exampleSeries) None"
  let ?e = "episodes exampleSeries ! 1"
  have a: "episode (val ?m) = Some ?e"
    by code_simp
  have b: "0 \<le> airedSeason ?e" and c: "0 \<le> airedEpisodeNumber ?e"
    by (simp_all add: exampleSeries_def)
  have d: "sanitize (''Show'' @ ''.S'' @ zeroPad 2 (showInt (airedSeason ?e)) @ ''E''
                     @ zeroPad (if length (episodes exampleSeries) < 100 then 2 else 3)
                         (showInt (airedEpisodeNumber ?e))
                     @ ''.'' @ episodeName ?e @ toLowerCase (extname ''Show.e02.mkv''))
           = ''Show.S01E02.Second.Episode.mkv''"
    by code_simp
  have j: "join ''/tv/Show (2019)/Season 1'' ''Show.S01E02.Second.Episode.mkv''
           = ''/tv/Show (2019)/Season 1/Show.S01E02.Second.Episode.mkv''"
    by (simp add: join_def normalize_def)
  from proposed_file_name_format [OF refl a b c]
  have "name ?m = sanitize (''Show'' @ ''.S'' @ zeroPad 2 (showInt (airedSeason ?e)) @ ''E''
                     @ zeroPad (if length (episodes exampleSeries) < 100 then 2 else 3)
                         (showInt (airedEpisodeNumber ?e))
                     @ ''.'' @ episodeName ?e @ toLowerCase (extname ''Show.e02.mkv''))"
    and "updatedPath (val ?m) = join ''/tv/Show (2019)/Season 1'' (name ?m)"
    by blast+
  with a b c d j show ?thesis by simp
qed

section \<open>The sanitiser\<close>

lemma set_replaceAll: "set (replaceAll pat rep s) \<subseteq> set rep \<union> set s"
proof (induction pat rep s rule: replaceAll.induct)
  case (1 pat rep)
  then show ?case by simp
next
  case (2 pat rep c s)
  show ?case
  proof (cases "pat \<noteq> [] \<and> isPrefixOf pat (c # s)")
    case True
    with 2(1) have "set (replaceAll pat rep (drop (length pat) (c # s)))
                      \<subseteq> set rep \<union> set (drop (length pat) (c # s))"
      by simp
    moreover have "set (drop (length pat) (c # s)) \<subseteq> set (c # s)"
      by (rule set_drop_subset)
    ultimately show ?thesis using True by auto
  next
    case False
    with 2(2) show ?thesis by auto
  qed
qed

lemma replaceAll_keeps_absent:
  "c \<notin> set s \<Longrightarrow> c \<notin> set rep \<Longrightarrow> c \<notin> set (replaceAll pat rep s)"
  using set_replaceAll [of pat rep s] by auto

lemma replaceAll_removes: "a \<notin> set rep \<Longrightarrow> a \<notin> set (replaceAll [a] rep s)"
  by (induction s) auto

lemma replaceAll_id: "pat \<noteq> [] \<Longrightarrow> hd pat \<notin> set s \<Longrightarrow> replaceAll pat rep s = s"
proof (induction s)
  case Nil
  then show ?case by simp
next
  case (Cons c s)
  then have "\<not> isPrefixOf pat (c # s)"
    by (cases pat) auto
  with Cons show ?case by simp
qed

lemma applyReplaces_keeps_absent:
  "c \<notin> set s \<Longrightarrow> \<forall>(p, r) \<in> set rs. c \<notin> set r \<Longrightarrow> c \<notin> set (applyReplaces rs s)"
  by (induction rs arbitrary: s) (auto simp: replaceAll_keeps_absent)

lemma applyReplaces_removes:
  "([c], r) \<in> set rs \<Longrightarrow> \<forall>(p, r) \<in> set rs. c \<notin> set r \<Longrightarrow> c \<notin> set (applyReplaces rs s)"
proof (induction rs arbitrary: s)
  case Nil
  then show ?case by simp
next
  case (Cons pr rs)
  obtain p r' where pr: "pr = (p, r')" by (cases pr)
  show ?case
  proof (cases "pr = ([c], r)")
    case True
    with Cons.prems(2) have "c \<notin> set (replaceAll [c] r s)"
      by (intro replaceAll_removes) auto
    moreover from Cons.prems(2) have "\<forall>(p, r) \<in> set rs. c \<notin> set r"
      by simp
    ultimately have "c \<notin> set (applyReplaces rs (replaceAll [c] r s))"
      by (rule applyReplaces_keeps_absent)
    with True show ?thesis by simp
  next
    case False
    with Cons.prems have "([c], r) \<in> set rs" "\<forall>(p, r) \<in> set rs. c \<notin> set r"
      by auto
    then show ?thesis using Cons.IH pr by simp
  qed
qed

lemma applyReplaces_id:
  "\<forall>(p, r) \<in> set rs. p \<noteq> [] \<and> hd p \<notin> set s \<Longrightarrow> applyReplaces rs s = s"
  by (induction rs) (auto simp: replaceAll_id)

lemma sanitize_safe: "c \<in> set unsafeChars \<Longrightarrow> c \<notin> set (sanitize s)"
proof -
  assume c: "c \<in> set unsafeChars"
  have no: "\<forall>(p, r) \<in> set episodeReplaces. \<forall>c \<in> set unsafeChars. c \<notin> set r"
    by (simp add: episodeReplaces_def unsafeChars_def)
  have "\<forall>c \<in> set unsafeChars. \<exists>r. ([c], r) \<in> set episodeReplaces"
    by (simp add: episodeReplaces_def unsafeChars_def)
  with c obtain r where "([c], r) \<in> set episodeReplaces" by blast
  moreover from no c have "\<forall>(p, r) \<in> set episodeReplaces. c \<notin> set r" by blast
  ultimately show ?thesis
    unfolding sanitize_def by (rule applyReplaces_removes)
qed

lemma sanitize_fixes_safe: "set t \<inter> set unsafeChars = {} \<Longrightarrow> sanitize t = t"
proof -
  assume t: "set t \<inter> set unsafeChars = {}"
  have "\<forall>(p, r) \<in> set episodeReplaces. p \<noteq> [] \<and> hd p \<in> set unsafeChars"
    by (simp add: episodeReplaces_def unsafeChars_def)
  with t have "\<forall>(p, r) \<in> set episodeReplaces. p \<noteq> [] \<and> hd p \<notin> set t"
    by fastforce
  then show ?thesis
    unfolding sanitize_def by (rule applyReplaces_id)
qed

text \<open>
  \<^bold>\<open>C3.\<close> Whatever the input, the sanitiser's output contains none of the characters
  a-umlaut, o-umlaut, u-umlaut, sharp s, A-umlaut, O-umlaut, U-umlaut, question mark,
  comma, double quote, colon, space, tab and slash, and sanitising the output again
  returns it unchanged. The two replacements of the colon (\<^verbatim>\<open>: \<close> and \<^verbatim>\<open>:\<close>, each by \<^verbatim>\<open>-\<close>)
  are applied before the replacement of spaces by dots, so that \<^verbatim>\<open>What: now\<close> becomes
  \<^verbatim>\<open>What-now\<close>.
\<close>

theorem sanitize_safe_idempotent:
  "set (sanitize s) \<inter> set unsafeChars = {}
   \<and> sanitize (sanitize s) = sanitize s
   \<and> sanitize s
       = applyReplaces [('' '', ''.''), (''/'', ''_''), ([CHR 0x09], [])]
           (applyReplaces [([CHR 0x22], [CHR 0x27])]
              (applyReplaces [('': '', ''-''), ('':'', ''-'')]
                 (applyReplaces (take 9 episodeReplaces) s)))
   \<and> sanitize ''What: now'' = ''What-now''"
proof -
  have safe: "set (sanitize s) \<inter> set unsafeChars = {}"
    using sanitize_safe by blast
  then have "sanitize (sanitize s) = sanitize s"
    by (rule sanitize_fixes_safe)
  moreover have "sanitize ''What: now'' = ''What-now''"
    by (simp add: sanitize_def episodeReplaces_def)
  moreover have "sanitize s
       = applyReplaces [('' '', ''.''), (''/'', ''_''), ([CHR 0x09], [])]
           (applyReplaces [([CHR 0x22], [CHR 0x27])]
              (applyReplaces [('': '', ''-''), ('':'', ''-'')]
                 (applyReplaces (take 9 episodeReplaces) s)))"
    by (simp add: sanitize_def episodeReplaces_def)
  ultimately show ?thesis using safe by simp
qed

section \<open>The order of a season's list\<close>

lemma cmp_matched_matched:
  "matched x \<Longrightarrow> matched y \<Longrightarrow>
   (sortEpisodeMappings x y \<le> 0) = (episodeNo x \<le> episodeNo y)"
  by (auto simp: sortEpisodeMappings_def matched_def episodeNo_def Let_def)

lemma cmp_unmatched_matched: "\<not> matched x \<Longrightarrow> matched y \<Longrightarrow> sortEpisodeMappings x y = 1"
  by (auto simp: sortEpisodeMappings_def matched_def Let_def)

lemma cmp_matched_unmatched: "matched x \<Longrightarrow> \<not> matched y \<Longrightarrow> sortEpisodeMappings x y = - 1"
  by (auto simp: sortEpisodeMappings_def matched_def Let_def)

lemma cmp_unmatched_unmatched: "\<not> matched x \<Longrightarrow> \<not> matched y \<Longrightarrow> sortEpisodeMappings x y = 0"
  by (auto simp: sortEpisodeMappings_def matched_def Let_def)

lemma sortEpisodeMappings_consistent:
  "sortEpisodeMappings a a = 0"
  "(sortEpisodeMappings a b < 0) = (0 < sortEpisodeMappings b a)"
  "sortEpisodeMappings a b \<le> 0 \<Longrightarrow> sortEpisodeMappings b c \<le> 0 \<Longrightarrow> sortEpisodeMappings a c \<le> 0"
  by (auto simp: sortEpisodeMappings_def Let_def split: option.splits if_splits)

lemma insertBy_unmatched:
  "\<not> matched x \<Longrightarrow> \<forall>m \<in> set ms. matched m \<Longrightarrow> \<forall>u \<in> set us. \<not> matched u \<Longrightarrow>
   insertBy sortEpisodeMappings x (ms @ us) = ms @ x # us"
proof (induction ms)
  case Nil
  then show ?case
    by (cases us) (simp_all add: cmp_unmatched_unmatched)
next
  case (Cons m ms)
  then show ?case by (simp add: cmp_unmatched_matched)
qed

lemma insertBy_matched:
  "matched x \<Longrightarrow> \<forall>m \<in> set ms. matched m \<Longrightarrow> \<forall>u \<in> set us. \<not> matched u \<Longrightarrow>
   insertBy sortEpisodeMappings x (ms @ us) = insort_key episodeNo x ms @ us"
proof (induction ms)
  case Nil
  then show ?case
    by (cases us) (simp_all add: cmp_matched_unmatched)
next
  case (Cons m ms)
  then show ?case by (simp add: cmp_matched_matched)
qed

lemma arraySort_decomposition:
  "arraySort sortEpisodeMappings xs
     = sort_key episodeNo (filter matched xs) @ filter (\<lambda>m. \<not> matched m) xs"
proof (induction xs)
  case Nil
  then show ?case by (simp add: arraySort_def)
next
  case (Cons x xs)
  have step: "arraySort sortEpisodeMappings (x # xs)
                = insertBy sortEpisodeMappings x (arraySort sortEpisodeMappings xs)"
    by (simp add: arraySort_def)
  have ms: "\<forall>m \<in> set (sort_key episodeNo (filter matched xs)). matched m"
    and us: "\<forall>u \<in> set (filter (\<lambda>m. \<not> matched m) xs). \<not> matched u"
    by simp_all
  show ?case
  proof (cases "matched x")
    case True
    from insertBy_matched [OF True ms us] Cons.IH step True show ?thesis by simp
  next
    case False
    from insertBy_unmatched [OF False ms us] Cons.IH step False show ?thesis by simp
  qed
qed

lemma filter_matched_arraySort:
  "filter matched (arraySort sortEpisodeMappings xs) = sort_key episodeNo (filter matched xs)"
proof -
  have "filter matched (sort_key episodeNo (filter matched xs))
          = sort_key episodeNo (filter matched xs)"
    by (rule filter_True) simp
  moreover have "filter matched (filter (\<lambda>m. \<not> matched m) xs) = []"
    by (simp add: filter_empty_conv)
  ultimately show ?thesis by (simp add: arraySort_decomposition)
qed

lemma filter_unmatched_arraySort:
  "filter (\<lambda>m. \<not> matched m) (arraySort sortEpisodeMappings xs) = filter (\<lambda>m. \<not> matched m) xs"
proof -
  have "filter (\<lambda>m. \<not> matched m) (sort_key episodeNo (filter matched xs)) = []"
    by (simp add: filter_empty_conv)
  then show ?thesis by (simp add: arraySort_decomposition)
qed

lemma mset_arraySort: "mset (arraySort sortEpisodeMappings xs) = mset xs"
proof -
  have "mset (arraySort sortEpisodeMappings xs)
          = filter_mset matched (mset xs) + filter_mset (\<lambda>m. \<not> matched m) (mset xs)"
    by (simp add: arraySort_decomposition)
  then show ?thesis by simp
qed

lemma stable_sort_unique:
  assumes "zs = ms @ us"
    and "\<forall>m \<in> set ms. matched m"
    and "us = filter (\<lambda>m. \<not> matched m) xs"
    and "sorted (map episodeNo ms)"
    and "mset ms = mset (filter matched xs)"
    and "\<And>n. filter (\<lambda>m. n = episodeNo m) ms = filter (\<lambda>m. n = episodeNo m) (filter matched xs)"
  shows "zs = arraySort sortEpisodeMappings xs"
proof -
  have "sort_key episodeNo (filter matched xs) = ms"
    by (rule properties_for_sort_key) (use assms in auto)
  with assms(1,3) show ?thesis by (simp add: arraySort_decomposition)
qed

lemma getSeason_setSeason: "getSeason (setSeason k e m) k = Some e"
  by (induction m) (auto simp: getSeason_def)

lemma getSeason_setSeason_other:
  "season \<noteq> k \<Longrightarrow> getSeason (setSeason k e m) season = getSeason m season"
  by (induction k e m rule: setSeason.induct) (auto simp: getSeason_def)

lemma arraySort_order:
  "arraySort sortEpisodeMappings xs
     = filter matched (arraySort sortEpisodeMappings xs)
       @ filter (\<lambda>m. \<not> matched m) (arraySort sortEpisodeMappings xs)
   \<and> sorted (map episodeNo (filter matched (arraySort sortEpisodeMappings xs)))
   \<and> (distinct (map episodeNo (filter matched xs))
        \<longrightarrow> sorted_wrt (<) (map episodeNo (filter matched (arraySort sortEpisodeMappings xs))))
   \<and> filter (\<lambda>m. \<not> matched m) (arraySort sortEpisodeMappings xs) = filter (\<lambda>m. \<not> matched m) xs
   \<and> filter (\<lambda>m. matched m \<and> episodeNo m = n) (arraySort sortEpisodeMappings xs)
       = filter (\<lambda>m. matched m \<and> episodeNo m = n) xs
   \<and> mset (arraySort sortEpisodeMappings xs) = mset xs"
proof (intro conjI impI)
  show "arraySort sortEpisodeMappings xs
     = filter matched (arraySort sortEpisodeMappings xs)
       @ filter (\<lambda>m. \<not> matched m) (arraySort sortEpisodeMappings xs)"
    unfolding filter_matched_arraySort filter_unmatched_arraySort
    by (rule arraySort_decomposition)
  show "sorted (map episodeNo (filter matched (arraySort sortEpisodeMappings xs)))"
    by (simp add: filter_matched_arraySort)
  show "filter (\<lambda>m. \<not> matched m) (arraySort sortEpisodeMappings xs) = filter (\<lambda>m. \<not> matched m) xs"
    by (rule filter_unmatched_arraySort)
  show "mset (arraySort sortEpisodeMappings xs) = mset xs"
    by (rule mset_arraySort)
next
  assume d: "distinct (map episodeNo (filter matched xs))"
  have "mset (map episodeNo (sort_key episodeNo (filter matched xs)))
          = mset (map episodeNo (filter matched xs))"
    by simp
  with d have "distinct (map episodeNo (sort_key episodeNo (filter matched xs)))"
    using mset_eq_imp_distinct_iff by blast
  then show "sorted_wrt (<) (map episodeNo (filter matched (arraySort sortEpisodeMappings xs)))"
    by (simp add: filter_matched_arraySort strict_sorted_iff)
next
  have "filter (\<lambda>m. matched m \<and> episodeNo m = n) (arraySort sortEpisodeMappings xs)
          = filter (\<lambda>m. episodeNo m = n) (filter matched (arraySort sortEpisodeMappings xs))"
    by (simp add: conj_commute)
  also have "\<dots> = filter (\<lambda>m. episodeNo m = n) (filter matched xs)"
    by (simp only: filter_matched_arraySort sort_key_stable)
  also have "\<dots> = filter (\<lambda>m. matched m \<and> episodeNo m = n) xs"
    by (simp add: conj_commute)
  finally show "filter (\<lambda>m. matched m \<and> episodeNo m = n) (arraySort sortEpisodeMappings xs)
       = filter (\<lambda>m. matched m \<and> episodeNo m = n) xs" .
qed

lemma assignEpisode_result:
  assumes "assignEpisode selectedSeries episodeMapping selectedEpisode renames = Some renames'"
  shows "\<exists>before.
           getSeason renames (seasonNumber (val episodeMapping)) = Some before
           \<and> renames' = setSeason (seasonNumber (val episodeMapping))
                 (before\<lparr>episodeMappings :=
                            arraySort sortEpisodeMappings
                              (reassigned selectedSeries episodeMapping selectedEpisode
                                 (episodeMappings before))\<rparr>)
                 renames"
  using assms
  by (auto simp: assignEpisode_def reassigned_def Let_def split: option.splits)

text \<open>
  \<^bold>\<open>C2\<close>, as the claim states it, fails: when two files of a season folder carry the number
  of the same episode, both are matched to it, and the matched entries of the list built
  have the numbers 1, 1, 2, which is not strictly ascending.
\<close>

theorem duplicate_episode_not_strict:
  "map (\<lambda>m. (originalPath (val m), matched m, episodeNo m))
     (generateEpisodeNamesForSeason duplicateFiles ''/tv/Show (2019)/Season 1'' 1 exampleSeries)
   = [(''/tv/Show (2019)/Season 1/Show.e01.mkv'', True, 1),
      (''/tv/Show (2019)/Season 1/Show.E01.avi'', True, 1),
      (''/tv/Show (2019)/Season 1/Show.e02.mkv'', True, 2),
      (''/tv/Show (2019)/Season 1/notes.mkv'', False, 0)]
   \<and> \<not> sorted_wrt (<) (map episodeNo (filter matched
           (generateEpisodeNamesForSeason duplicateFiles ''/tv/Show (2019)/Season 1'' 1
              exampleSeries)))"
  by code_simp

text \<open>
  \<^bold>\<open>C2\<close>, amended. In every season's list after the builder, and after the sort that ends a
  manual reassignment, the matched entries come first, in ascending order of their episode
  numbers, strictly ascending whenever no two entries are matched to episodes of the same
  number; entries matched to the same number keep the order they had. Every unmatched
  entry comes after all matched ones, and the unmatched entries keep the order they had.
  The sorted list has the entries of the unsorted one. For the builder the unsorted list is
  the list of the mappings of the files in the order of the listing; for a reassignment it
  is the season's list before, with the entries of the reassigned name replaced, and the
  season keeps its folder name while every other season stays as it was.
\<close>

theorem review_list_order:
  "arraySort sortEpisodeMappings xs
     = filter matched (arraySort sortEpisodeMappings xs)
       @ filter (\<lambda>m. \<not> matched m) (arraySort sortEpisodeMappings xs)
   \<and> sorted (map episodeNo (filter matched (arraySort sortEpisodeMappings xs)))
   \<and> (distinct (map episodeNo (filter matched xs))
        \<longrightarrow> sorted_wrt (<) (map episodeNo (filter matched (arraySort sortEpisodeMappings xs))))
   \<and> filter (\<lambda>m. \<not> matched m) (arraySort sortEpisodeMappings xs) = filter (\<lambda>m. \<not> matched m) xs
   \<and> filter (\<lambda>m. matched m \<and> episodeNo m = n) (arraySort sortEpisodeMappings xs)
       = filter (\<lambda>m. matched m \<and> episodeNo m = n) xs
   \<and> mset (arraySort sortEpisodeMappings xs) = mset xs
   \<and> generateEpisodeNamesForSeason getFileNames sFolder season seriesDetails
       = arraySort sortEpisodeMappings
           (map (\<lambda>fileName. generateEpisodeName (seriesName seriesDetails) sFolder season fileName
                   (filter (\<lambda>e. airedSeason e = season) (episodes seriesDetails)) None)
                (getFileNames sFolder))
   \<and> (assignEpisode selectedSeries episodeMapping selectedEpisode renames = Some renames'
        \<longrightarrow> (\<exists>before after.
               getSeason renames (seasonNumber (val episodeMapping)) = Some before
               \<and> getSeason renames' (seasonNumber (val episodeMapping)) = Some after
               \<and> folderName after = folderName before
               \<and> episodeMappings after
                   = arraySort sortEpisodeMappings
                       (reassigned selectedSeries episodeMapping selectedEpisode
                          (episodeMappings before))
               \<and> episodeMappings after
                   = filter matched (episodeMappings after)
                     @ filter (\<lambda>m. \<not> matched m) (episodeMappings after)
               \<and> sorted (map episodeNo (filter matched (episodeMappings after)))
               \<and> (distinct (map episodeNo (filter matched
                       (reassigned selectedSeries episodeMapping selectedEpisode
                          (episodeMappings before))))
                    \<longrightarrow> sorted_wrt (<) (map episodeNo (filter matched (episodeMappings after))))
               \<and> filter (\<lambda>m. \<not> matched m) (episodeMappings after)
                   = filter (\<lambda>m. \<not> matched m)
                       (reassigned selectedSeries episodeMapping selectedEpisode
                          (episodeMappings before))
               \<and> filter (\<lambda>m. matched m \<and> episodeNo m = n) (episodeMappings after)
                   = filter (\<lambda>m. matched m \<and> episodeNo m = n)
                       (reassigned selectedSeries episodeMapping selectedEpisode
                          (episodeMappings before))
               \<and> mset (episodeMappings after)
                   = mset (reassigned selectedSeries episodeMapping selectedEpisode
                             (episodeMappings before)))
            \<and> (\<forall>other. other \<noteq> seasonNumber (val episodeMapping)
                  \<longrightarrow> getSeason renames' other = getSeason renames other))"
proof -
  have builder: "generateEpisodeNamesForSeason getFileNames sFolder season seriesDetails
       = arraySort sortEpisodeMappings
           (map (\<lambda>fileName. generateEpisodeName (seriesName seriesDetails) sFolder season fileName
                   (filter (\<lambda>e. airedSeason e = season) (episodes seriesDetails)) None)
                (getFileNames sFolder))"
    by (simp add: generateEpisodeNamesForSeason_def)
  have reassign: "(\<exists>before after.
               getSeason renames (seasonNumber (val episodeMapping)) = Some before
               \<and> getSeason renames' (seasonNumber (val episodeMapping)) = Some after
               \<and> folderName after = folderName before
               \<and> episodeMappings after
                   = arraySort sortEpisodeMappings
                       (reassigned selectedSeries episodeMapping selectedEpisode
                          (episodeMappings before))
               \<and> episodeMappings after
                   = filter matched (episodeMappings after)
                     @ filter (\<lambda>m. \<not> matched m) (episodeMappings after)
               \<and> sorted (map episodeNo (filter matched (episodeMappings after)))
               \<and> (distinct (map episodeNo (filter matched
                       (reassigned selectedSeries episodeMapping selectedEpisode
                          (episodeMappings before))))
                    \<longrightarrow> sorted_wrt (<) (map episodeNo (filter matched (episodeMappings after))))
               \<and> filter (\<lambda>m. \<not> matched m) (episodeMappings after)
                   = filter (\<lambda>m. \<not> matched m)
                       (reassigned selectedSeries episodeMapping selectedEpisode
                          (episodeMappings before))
               \<and> filter (\<lambda>m. matched m \<and> episodeNo m = n) (episodeMappings after)
                   = filter (\<lambda>m. matched m \<and> episodeNo m = n)
                       (reassigned selectedSeries episodeMapping selectedEpisode
                          (episodeMappings before))
               \<and> mset (episodeMappings after)
                   = mset (reassigned selectedSeries episodeMapping selectedEpisode
                             (episodeMappings before)))
            \<and> (\<forall>other. other \<noteq> seasonNumber (val episodeMapping)
                  \<longrightarrow> getSeason renames' other = getSeason renames other)"
    if a: "assignEpisode selectedSeries episodeMapping selectedEpisode renames = Some renames'"
  proof -
    let ?k = "seasonNumber (val episodeMapping)"
    from assignEpisode_result [OF a] obtain before where
      b: "getSeason renames ?k = Some before"
      and r: "renames' = setSeason ?k
                (before\<lparr>episodeMappings :=
                           arraySort sortEpisodeMappings
                             (reassigned selectedSeries episodeMapping selectedEpisode
                                (episodeMappings before))\<rparr>)
                renames"
      by blast
    let ?xs = "reassigned selectedSeries episodeMapping selectedEpisode (episodeMappings before)"
    define after where "after = before\<lparr>episodeMappings := arraySort sortEpisodeMappings ?xs\<rparr>"
    from r have g: "getSeason renames' ?k = Some after"
      by (simp add: getSeason_setSeason after_def)
    from r have o: "\<forall>other. other \<noteq> ?k \<longrightarrow> getSeason renames' other = getSeason renames other"
      by (simp add: getSeason_setSeason_other)
    have f: "folderName after = folderName before"
      and e: "episodeMappings after = arraySort sortEpisodeMappings ?xs"
      by (simp_all add: after_def)
    note p = arraySort_order [of ?xs n, folded e]
    from p b g f e have "getSeason renames ?k = Some before
               \<and> getSeason renames' ?k = Some after
               \<and> folderName after = folderName before
               \<and> episodeMappings after = arraySort sortEpisodeMappings ?xs
               \<and> episodeMappings after
                   = filter matched (episodeMappings after)
                     @ filter (\<lambda>m. \<not> matched m) (episodeMappings after)
               \<and> sorted (map episodeNo (filter matched (episodeMappings after)))
               \<and> (distinct (map episodeNo (filter matched ?xs))
                    \<longrightarrow> sorted_wrt (<) (map episodeNo (filter matched (episodeMappings after))))
               \<and> filter (\<lambda>m. \<not> matched m) (episodeMappings after)
                   = filter (\<lambda>m. \<not> matched m) ?xs
               \<and> filter (\<lambda>m. matched m \<and> episodeNo m = n) (episodeMappings after)
                   = filter (\<lambda>m. matched m \<and> episodeNo m = n) ?xs
               \<and> mset (episodeMappings after) = mset ?xs"
      by (intro conjI) (rule b g f e | elim conjE, assumption)+
    with o show ?thesis by blast
  qed
  from arraySort_order [of xs n] builder reassign show ?thesis
    by blast
qed

theorem review_list_order_witness:
  "distinct (map episodeNo (filter matched (allMappings exampleRenames)))
   \<and> sorted_wrt (<) (map episodeNo (filter matched
         (arraySort sortEpisodeMappings (allMappings exampleRenames))))
   \<and> (\<exists>renames' before after.
         assignEpisode exampleSeries secondFileMapping (episodes exampleSeries ! 0) exampleRenames
           = Some renames'
         \<and> getSeason exampleRenames (seasonNumber (val secondFileMapping)) = Some before
         \<and> getSeason renames' (seasonNumber (val secondFileMapping)) = Some after
         \<and> episodeMappings after
             = arraySort sortEpisodeMappings
                 (reassigned exampleSeries secondFileMapping (episodes exampleSeries ! 0)
                    (episodeMappings before))
         \<and> filter (\<lambda>m. \<not> matched m) (episodeMappings after)
             = filter (\<lambda>m. \<not> matched m)
                 (reassigned exampleSeries secondFileMapping (episodes exampleSeries ! 0)
                    (episodeMappings before)))
   \<and> map (\<lambda>m. (originalPath (val m), episodeNo m))
         (reassigned exampleSeries secondFileMapping (episodes exampleSeries ! 0)
            (allMappings exampleRenames))
       = [(''/tv/Show (2019)/Season 1/Show.e01.mkv'', 1),
          (''/tv/Show (2019)/Season 1/Show.e02.mkv'', 1),
          (''/tv/Show (2019)/Season 1/readme.txt'', 0)]"
proof -
  have d: "distinct (map episodeNo (filter matched (allMappings exampleRenames)))"
    by code_simp
  have v: "map (\<lambda>m. (originalPath (val m), episodeNo m))
         (reassigned exampleSeries secondFileMapping (episodes exampleSeries ! 0)
            (allMappings exampleRenames))
       = [(''/tv/Show (2019)/Season 1/Show.e01.mkv'', 1),
          (''/tv/Show (2019)/Season 1/Show.e02.mkv'', 1),
          (''/tv/Show (2019)/Season 1/readme.txt'', 0)]"
    by code_simp
  have "assignEpisode exampleSeries secondFileMapping (episodes exampleSeries ! 0) exampleRenames
          \<noteq> None"
    by code_simp
  then obtain renames' where
    a: "assignEpisode exampleSeries secondFileMapping (episodes exampleSeries ! 0) exampleRenames
          = Some renames'"
    by blast
  note t = review_list_order [of "allMappings exampleRenames" _ _ _ _ _ exampleSeries
             secondFileMapping "episodes exampleSeries ! 0" exampleRenames renames']
  from t d have s: "sorted_wrt (<) (map episodeNo (filter matched
         (arraySort sortEpisodeMappings (allMappings exampleRenames))))"
    by blast
  from t a obtain before after where
    "getSeason exampleRenames (seasonNumber (val secondFileMapping)) = Some before"
    "getSeason renames' (seasonNumber (val secondFileMapping)) = Some after"
    "episodeMappings after
             = arraySort sortEpisodeMappings
                 (reassigned exampleSeries secondFileMapping (episodes exampleSeries ! 0)
                    (episodeMappings before))"
    "filter (\<lambda>m. \<not> matched m) (episodeMappings after)
             = filter (\<lambda>m. \<not> matched m)
                 (reassigned exampleSeries secondFileMapping (episodes exampleSeries ! 0)
                    (episodeMappings before))"
    by blast
  with d s v a show ?thesis by blast
qed

section \<open>Joining a folder and a listed name\<close>

lemma splitSlash_nonempty: "splitSlash s \<noteq> []"
  by (induction s) (auto split: list.splits)

lemma splitSlash_append_slash:
  "splitSlash (a @ CHR ''/'' # b) = splitSlash a @ splitSlash b"
proof (induction a)
  case Nil
  then show ?case by simp
next
  case (Cons c a)
  then show ?case
    using splitSlash_nonempty [of a] by (cases "splitSlash a") auto
qed

lemma splitSlash_no_slash: "CHR ''/'' \<notin> set x \<Longrightarrow> splitSlash x = [x]"
  by (induction x) auto

lemma normalizeSegs_append_valid:
  "validFileName x \<Longrightarrow>
   normalizeSegs allow res (segs @ [x]) = normalizeSegs allow res segs @ [x]"
  by (induction segs arbitrary: res) (auto simp: validFileName_def)

lemma joinSegs_snoc:
  "joinSegs (acc @ [x]) = (if acc = [] then x else joinSegs acc @ CHR ''/'' # x)"
  by (induction acc rule: joinSegs.induct) auto

lemma join_valid:
  "\<exists>pre. (pre = [] \<or> last pre = CHR ''/'') \<and> (\<forall>x. validFileName x \<longrightarrow> join d x = pre @ x)"
proof (cases "d = []")
  case True
  have "join d x = x" if "validFileName x" for x
  proof -
    from that have "normalizeSegs True [] (splitSlash x) = [x]"
      using normalizeSegs_append_valid [of x True "[]" "[]"]
      by (simp add: splitSlash_no_slash validFileName_def)
    moreover from that have "hd x \<noteq> CHR ''/''" "last x \<noteq> CHR ''/''" "x \<noteq> []"
      by (auto simp: validFileName_def dest: hd_in_set last_in_set)
    ultimately show ?thesis
      using True by (simp add: join_def normalize_def)
  qed
  then show ?thesis by (intro exI [of _ "[]"]) simp
next
  case False
  let ?abs = "hd d = CHR ''/''"
  let ?acc = "normalizeSegs (\<not> ?abs) [] (splitSlash d)"
  let ?pre = "(if ?abs then ''/'' else []) @ (if ?acc = [] then [] else joinSegs ?acc @ ''/'')"
  have "join d x = ?pre @ x" if "validFileName x" for x
  proof -
    from that have x: "x \<noteq> []" "CHR ''/'' \<notin> set x"
      by (simp_all add: validFileName_def)
    then have lx: "last x \<noteq> CHR ''/''"
      using last_in_set by metis
    have "normalizeSegs (\<not> ?abs) [] (splitSlash (d @ CHR ''/'' # x)) = ?acc @ [x]"
      using that x by (simp add: splitSlash_append_slash splitSlash_no_slash
            normalizeSegs_append_valid)
    then have p: "joinSegs (normalizeSegs (\<not> ?abs) [] (splitSlash (d @ CHR ''/'' # x)))
                    = (if ?acc = [] then x else joinSegs ?acc @ CHR ''/'' # x)"
      by (simp add: joinSegs_snoc)
    from False x have "join d x = normalize (d @ CHR ''/'' # x)"
      by (simp add: join_def)
    also have "\<dots> = ?pre @ x"
      using False x lx p by (simp add: normalize_def Let_def)
    finally show ?thesis .
  qed
  moreover have "?pre = [] \<or> last ?pre = CHR ''/''"
    by simp
  ultimately show ?thesis by blast
qed

lemma join_inject:
  "validFileName x \<Longrightarrow> validFileName y \<Longrightarrow> (join d x = join d y) = (x = y)"
  using join_valid [of d] by auto

lemma basename_join: "validFileName x \<Longrightarrow> basename (join d x) = x"
proof -
  assume v: "validFileName x"
  then have x: "x \<noteq> []" "CHR ''/'' \<notin> set x" by (simp_all add: validFileName_def)
  from join_valid [of d] v obtain pre where
    pre: "pre = [] \<or> last pre = CHR ''/''" and j: "join d x = pre @ x"
    by blast
  from x have "hd (rev x) \<noteq> CHR ''/''"
    by (metis hd_rev last_in_set)
  with x have dw: "dropWhile (\<lambda>c. c = CHR ''/'') (rev x @ rev pre) = rev x @ rev pre"
    by (cases "rev x") auto
  from x have all: "\<forall>c \<in> set (rev x). c \<noteq> CHR ''/''" by auto
  have "takeWhile (\<lambda>c. c \<noteq> CHR ''/'') (rev x @ rev pre) = rev x"
  proof (cases "pre = []")
    case True
    with all show ?thesis by simp
  next
    case False
    with pre have "hd (rev pre) = CHR ''/''" by (simp add: hd_rev)
    with False obtain l where "rev pre = CHR ''/'' # l"
      by (cases "rev pre") auto
    then have "takeWhile (\<lambda>c. c \<noteq> CHR ''/'') (rev x @ rev pre)
                 = takeWhile (\<lambda>c. c \<noteq> CHR ''/'') (rev x)"
      by (simp add: takeWhile_tail)
    with all show ?thesis by simp
  qed
  with dw j show ?thesis by (simp add: basename_def)
qed

section \<open>Which folders are seasons\<close>

lemma folderSeasonMatch_eq:
  "folderSeasonMatch fName
     = (if \<exists>c \<in> set fName. isDigit c
        then Some (fName, digitsValue (firstDigitRun fName)) else None)"
proof (cases "\<exists>c \<in> set fName. isDigit c")
  case True
  then have "parseInt (firstDigitRun fName) = Num (digitsValue (firstDigitRun fName))"
    using parseInt_digits firstDigitRun_digits firstDigitRun_nonempty by blast
  with True show ?thesis by (simp add: folderSeasonMatch_def match_Digits)
next
  case False
  then show ?thesis by (simp add: folderSeasonMatch_def match_Digits)
qed

lemma seasonFolders_eq:
  "seasonFolders folders
     = map (\<lambda>fName. (fName, digitsValue (firstDigitRun fName)))
           (filter (\<lambda>fName. \<exists>c \<in> set fName. isDigit c) folders)"
  by (induction folders) (simp_all add: seasonFolders_def List.map_filter_simps folderSeasonMatch_eq)

lemma set_setSeason_subset: "set (setSeason k e m) \<subseteq> insert (k, e) (set m)"
  by (induction k e m rule: setSeason.induct) auto

lemma setSeason_keys: "fst ` set (setSeason k e m) = insert k (fst ` set m)"
  by (induction k e m rule: setSeason.induct) auto

lemma zip_map_self: "zip xs (map f xs) = map (\<lambda>x. (x, f x)) xs"
  by (induction xs) auto

lemma generateEpisodeNames_entries:
  "set (foldl (\<lambda>result ((fName, season), ms).
                 setSeason season \<lparr>folderName = Some fName, episodeMappings = ms\<rparr> result)
              acc zs)
     \<subseteq> set acc \<union> (\<lambda>((fName, season), ms).
                        (season, \<lparr>folderName = Some fName, episodeMappings = ms\<rparr>)) ` set zs"
proof (induction zs arbitrary: acc)
  case Nil
  then show ?case by simp
next
  case (Cons z zs)
  obtain fName season ms where z: "z = ((fName, season), ms)" by (cases z) auto
  show ?case
    using Cons.IH [of "setSeason season \<lparr>folderName = Some fName, episodeMappings = ms\<rparr> acc"]
      set_setSeason_subset [of season "\<lparr>folderName = Some fName, episodeMappings = ms\<rparr>" acc]
    by (auto simp: z)
qed

lemma generateEpisodeNames_keys:
  "fst ` set (foldl (\<lambda>result ((fName, season), ms).
                 setSeason season \<lparr>folderName = Some fName, episodeMappings = ms\<rparr> result)
              acc zs)
     = fst ` set acc \<union> (\<lambda>((fName, season), ms). season) ` set zs"
proof (induction zs arbitrary: acc)
  case Nil
  then show ?case by simp
next
  case (Cons z zs)
  obtain fName season ms where z: "z = ((fName, season), ms)" by (cases z) auto
  show ?case
    using Cons.IH [of "setSeason season \<lparr>folderName = Some fName, episodeMappings = ms\<rparr> acc"]
    by (auto simp: z setSeason_keys)
qed

lemma generateEpisodeNames_entry:
  assumes "(k, entry) \<in> set (generateEpisodeNames getFolderNames getFileNames dir series)"
  shows "\<exists>fName \<in> set (getFolderNames dir).
           (\<exists>c \<in> set fName. isDigit c)
           \<and> k = digitsValue (firstDigitRun fName)
           \<and> folderName entry = Some fName
           \<and> episodeMappings entry
               = generateEpisodeNamesForSeason getFileNames (join dir fName) k series"
proof -
  let ?sf = "seasonFolders (getFolderNames dir)"
  let ?ms = "map (\<lambda>(fName, season).
                   generateEpisodeNamesForSeason getFileNames (join dir fName) season series) ?sf"
  from assms generateEpisodeNames_entries [of "[]" "zip ?sf ?ms"]
  obtain fName season ms where z: "((fName, season), ms) \<in> set (zip ?sf ?ms)"
    and e: "(k, entry) = (season, \<lparr>folderName = Some fName, episodeMappings = ms\<rparr>)"
    by (auto simp: generateEpisodeNames_def Let_def)
  from z have "ms = generateEpisodeNamesForSeason getFileNames (join dir fName) season series"
    by (auto simp: zip_map_self)
  moreover from z have "(fName, season) \<in> set ?sf"
    by (auto simp: zip_map_self)
  then have "fName \<in> set (getFolderNames dir)" "\<exists>c \<in> set fName. isDigit c"
    "season = digitsValue (firstDigitRun fName)"
    by (auto simp: seasonFolders_eq)
  ultimately show ?thesis using e by auto
qed

lemma generateEpisodeNames_key:
  assumes "fName \<in> set (getFolderNames dir)" "\<exists>c \<in> set fName. isDigit c"
  shows "digitsValue (firstDigitRun fName)
           \<in> fst ` set (generateEpisodeNames getFolderNames getFileNames dir series)"
proof -
  let ?sf = "seasonFolders (getFolderNames dir)"
  let ?ms = "map (\<lambda>(fName, season).
                   generateEpisodeNamesForSeason getFileNames (join dir fName) season series) ?sf"
  from assms have "(fName, digitsValue (firstDigitRun fName)) \<in> set ?sf"
    by (auto simp: seasonFolders_eq)
  then have "digitsValue (firstDigitRun fName) \<in> (\<lambda>((fName, season), ms). season) ` set (zip ?sf ?ms)"
    by (force simp: zip_map_self image_iff)
  then show ?thesis
    by (simp add: generateEpisodeNames_def Let_def generateEpisodeNames_keys)
qed


lemma generateEpisodeName_origin:
  "seasonFolder (val (generateEpisodeName sName sFolder sNumber f eps force)) = sFolder
   \<and> originalPath (val (generateEpisodeName sName sFolder sNumber f eps force)) = join sFolder f"
  by (simp add: generateEpisodeName_def unchangedEpisodeMapping_def Let_def
           split: option.splits number.splits)

lemma season_list_entries:
  "m \<in> set (generateEpisodeNamesForSeason getFileNames sFolder k series) \<Longrightarrow>
   \<exists>f \<in> set (getFileNames sFolder).
     m = generateEpisodeName (seriesName series) sFolder k f
           (filter (\<lambda>e. airedSeason e = k) (episodes series)) None"
  by (auto simp: generateEpisodeNamesForSeason_def Let_def set_arraySort)

lemma allMappings_iff:
  "m \<in> set (allMappings renames) \<longleftrightarrow> (\<exists>(k, entry) \<in> set renames. m \<in> set (episodeMappings entry))"
  by (auto simp: allMappings_def)

text \<open>
  \<^bold>\<open>C9.\<close> The builder creates a season entry only for subfolders of the series directory
  whose name has a run of digits, under the number that the first such run writes: every
  entry of the structure belongs to such a folder and holds the list built for that folder,
  and every such folder finds an entry under its number. A subfolder whose name has no
  digit is the folder of no entry, every mapping of the structure is that of a file listed
  in the season folder of a numbered subfolder, and (the listed names being proper names)
  no mapping lies in the folder without a number: its files are never renamed.
\<close>

theorem season_entries_only_for_numbered_folders:
  "(\<forall>(k, entry) \<in> set (generateEpisodeNames getFolderNames getFileNames dir series).
      \<exists>fName \<in> set (getFolderNames dir).
        (\<exists>c \<in> set fName. isDigit c)
        \<and> k = digitsValue (firstDigitRun fName)
        \<and> folderName entry = Some fName
        \<and> episodeMappings entry
            = generateEpisodeNamesForSeason getFileNames (join dir fName) k series)
   \<and> (\<forall>fName \<in> set (getFolderNames dir).
         (\<exists>c \<in> set fName. isDigit c)
         \<longrightarrow> (\<exists>entry. getSeason (generateEpisodeNames getFolderNames getFileNames dir series)
                          (digitsValue (firstDigitRun fName)) = Some entry))
   \<and> (\<forall>fName \<in> set (getFolderNames dir).
         (\<forall>c \<in> set fName. \<not> isDigit c)
         \<longrightarrow> (\<forall>(k, entry) \<in> set (generateEpisodeNames getFolderNames getFileNames dir series).
                folderName entry \<noteq> Some fName))
   \<and> (\<forall>m \<in> set (allMappings (generateEpisodeNames getFolderNames getFileNames dir series)).
         \<exists>fName \<in> set (getFolderNames dir).
           (\<exists>c \<in> set fName. isDigit c)
           \<and> seasonFolder (val m) = join dir fName
           \<and> (\<exists>f \<in> set (getFileNames (join dir fName)).
                 originalPath (val m) = join (join dir fName) f))
   \<and> ((\<forall>fName \<in> set (getFolderNames dir). validFileName fName)
        \<longrightarrow> (\<forall>fName \<in> set (getFolderNames dir).
               (\<forall>c \<in> set fName. \<not> isDigit c)
               \<longrightarrow> (\<forall>m \<in> set (allMappings
                                   (generateEpisodeNames getFolderNames getFileNames dir series)).
                      seasonFolder (val m) \<noteq> join dir fName)))"
proof -
  let ?res = "generateEpisodeNames getFolderNames getFileNames dir series"
  have entries: "\<forall>(k, entry) \<in> set ?res.
      \<exists>fName \<in> set (getFolderNames dir).
        (\<exists>c \<in> set fName. isDigit c)
        \<and> k = digitsValue (firstDigitRun fName)
        \<and> folderName entry = Some fName
        \<and> episodeMappings entry
            = generateEpisodeNamesForSeason getFileNames (join dir fName) k series"
    using generateEpisodeNames_entry by blast
  have keys: "\<forall>fName \<in> set (getFolderNames dir).
         (\<exists>c \<in> set fName. isDigit c)
         \<longrightarrow> (\<exists>entry. getSeason ?res (digitsValue (firstDigitRun fName)) = Some entry)"
  proof (intro ballI impI)
    fix fName
    assume "fName \<in> set (getFolderNames dir)" "\<exists>c \<in> set fName. isDigit c"
    then have "digitsValue (firstDigitRun fName) \<in> fst ` set ?res"
      by (rule generateEpisodeNames_key)
    then have "map_of ?res (digitsValue (firstDigitRun fName)) \<noteq> None"
      by (simp add: map_of_eq_None_iff)
    then show "\<exists>entry. getSeason ?res (digitsValue (firstDigitRun fName)) = Some entry"
      by (auto simp: getSeason_def)
  qed
  have nodigit: "\<forall>fName \<in> set (getFolderNames dir).
         (\<forall>c \<in> set fName. \<not> isDigit c)
         \<longrightarrow> (\<forall>(k, entry) \<in> set ?res. folderName entry \<noteq> Some fName)"
    using entries by fastforce
  have maps: "\<forall>m \<in> set (allMappings ?res).
         \<exists>fName \<in> set (getFolderNames dir).
           (\<exists>c \<in> set fName. isDigit c)
           \<and> seasonFolder (val m) = join dir fName
           \<and> (\<exists>f \<in> set (getFileNames (join dir fName)).
                 originalPath (val m) = join (join dir fName) f)"
  proof
    fix m
    assume "m \<in> set (allMappings ?res)"
    then obtain k entry where ke: "(k, entry) \<in> set ?res" and m: "m \<in> set (episodeMappings entry)"
      by (auto simp: allMappings_iff)
    from ke entries obtain fName where f: "fName \<in> set (getFolderNames dir)"
      "\<exists>c \<in> set fName. isDigit c"
      "episodeMappings entry
         = generateEpisodeNamesForSeason getFileNames (join dir fName) k series"
      by fastforce
    from m f(3) season_list_entries obtain fl where
      "fl \<in> set (getFileNames (join dir fName))"
      "m = generateEpisodeName (seriesName series) (join dir fName) k fl
             (filter (\<lambda>e. airedSeason e = k) (episodes series)) None"
      by metis
    with f(1,2) show "\<exists>fName \<in> set (getFolderNames dir).
           (\<exists>c \<in> set fName. isDigit c)
           \<and> seasonFolder (val m) = join dir fName
           \<and> (\<exists>f \<in> set (getFileNames (join dir fName)).
                 originalPath (val m) = join (join dir fName) f)"
      using generateEpisodeName_origin by blast
  qed
  have apart: "(\<forall>fName \<in> set (getFolderNames dir). validFileName fName)
        \<longrightarrow> (\<forall>fName \<in> set (getFolderNames dir).
               (\<forall>c \<in> set fName. \<not> isDigit c)
               \<longrightarrow> (\<forall>m \<in> set (allMappings ?res). seasonFolder (val m) \<noteq> join dir fName))"
  proof (intro impI ballI notI)
    fix fName m
    assume v: "\<forall>fName \<in> set (getFolderNames dir). validFileName fName"
      and f: "fName \<in> set (getFolderNames dir)" "\<forall>c \<in> set fName. \<not> isDigit c"
      and m: "m \<in> set (allMappings ?res)" "seasonFolder (val m) = join dir fName"
    from m(1) maps obtain fName' where f': "fName' \<in> set (getFolderNames dir)"
      "\<exists>c \<in> set fName'. isDigit c" "seasonFolder (val m) = join dir fName'"
      by blast
    with m(2) v f(1) have "fName' = fName"
      using join_inject [of fName' fName dir] by simp
    with f(2) f'(2) show False by blast
  qed
  from entries keys nodigit maps apart show ?thesis by blast
qed


theorem season_entries_only_for_numbered_folders_witness:
  "''Season 1'' \<in> set (exampleFolders ''/tv/Show (2019)'')
   \<and> (\<exists>c \<in> set ''Season 1''. isDigit c)
   \<and> (\<exists>entry. getSeason exampleRenames (digitsValue (firstDigitRun ''Season 1'')) = Some entry)
   \<and> ''Extras'' \<in> set (exampleFolders ''/tv/Show (2019)'')
   \<and> \<not> (\<exists>c \<in> set ''Extras''. isDigit c)
   \<and> Some ''Extras'' \<notin> (\<lambda>(k, entry). folderName entry) ` set exampleRenames
   \<and> list_all validFileName (exampleFolders ''/tv/Show (2019)'')
   \<and> join ''/tv/Show (2019)'' ''Extras''
        \<notin> (\<lambda>m. seasonFolder (val m)) ` set (allMappings exampleRenames)"
proof -
  have s1: "''Season 1'' \<in> set (exampleFolders ''/tv/Show (2019)'')"
    and ex: "''Extras'' \<in> set (exampleFolders ''/tv/Show (2019)'')"
    by (simp_all add: exampleFolders_def)
  have d1: "\<exists>c \<in> set ''Season 1''. isDigit c"
    by (simp add: isDigit_def)
  have d2: "\<forall>c \<in> set ''Extras''. \<not> isDigit c"
    by (simp add: isDigit_def)
  have v: "\<forall>fName \<in> set (exampleFolders ''/tv/Show (2019)''). validFileName fName"
    by (simp add: exampleFolders_def validFileName_def)
  note t = season_entries_only_for_numbered_folders
             [of exampleFolders exampleFiles "''/tv/Show (2019)''" exampleSeries,
              folded exampleRenames_def]
  from t s1 d1
  have a: "\<exists>entry. getSeason exampleRenames (digitsValue (firstDigitRun ''Season 1'')) = Some entry"
    by blast
  from t ex d2
  have "\<forall>(k, entry) \<in> set exampleRenames. folderName entry \<noteq> Some ''Extras''"
    by blast
  then have b: "Some ''Extras'' \<notin> (\<lambda>(k, entry). folderName entry) ` set exampleRenames"
    by force
  from t v ex d2
  have "\<forall>m \<in> set (allMappings exampleRenames).
          seasonFolder (val m) \<noteq> join ''/tv/Show (2019)'' ''Extras''"
    by blast
  then have c: "join ''/tv/Show (2019)'' ''Extras''
        \<notin> (\<lambda>m. seasonFolder (val m)) ` set (allMappings exampleRenames)"
    by force
  from s1 ex d1 d2 v a b c show ?thesis
    by (simp add: list_all_iff)
qed

section \<open>The rename flag\<close>

lemma isPrefixOf_set:
  "isPrefixOf pat s \<Longrightarrow> set s = set pat \<union> set (drop (length pat) s)"
  by (auto simp: isPrefixOf_iff)

lemma replaceAll_keeps_present:
  "c \<in> set s \<Longrightarrow> c \<notin> set pat \<Longrightarrow> c \<in> set (replaceAll pat rep s)"
proof (induction pat rep s rule: replaceAll.induct)
  case (1 pat rep)
  then show ?case by simp
next
  case (2 pat rep c' s)
  show ?case
  proof (cases "pat \<noteq> [] \<and> isPrefixOf pat (c' # s)")
    case True
    with 2(3,4) have "c \<in> set (drop (length pat) (c' # s))"
      using isPrefixOf_set [of pat "c' # s"] by auto
    with True 2(1,4) show ?thesis by simp
  next
    case False
    with 2(2,3,4) show ?thesis by auto
  qed
qed

lemma applyReplaces_keeps_present:
  "c \<in> set s \<Longrightarrow> \<forall>(p, r) \<in> set rs. c \<notin> set p \<Longrightarrow> c \<in> set (applyReplaces rs s)"
  by (induction rs arbitrary: s) (auto simp: replaceAll_keeps_present)

lemma generateEpisodeFileName_valid:
  "validFileName (generateEpisodeFileName ext sName sNum epName epNum n)"
proof -
  let ?raw = "sName @ ''.S'' @ twoZero sNum @ ''E'' @ generateEpisodeNumber epNum n
               @ ''.'' @ epName @ ext"
  have "CHR ''S'' \<in> set ?raw" by simp
  moreover have "\<forall>(p, r) \<in> set episodeReplaces. CHR ''S'' \<notin> set p"
    by (simp add: episodeReplaces_def)
  ultimately have "CHR ''S'' \<in> set (sanitize ?raw)"
    unfolding sanitize_def by (rule applyReplaces_keeps_present)
  moreover have "CHR ''/'' \<notin> set (sanitize ?raw)"
    by (rule sanitize_safe) (simp add: unsafeChars_def)
  ultimately show ?thesis
    by (auto simp: validFileName_def generateEpisodeFileName_def)
qed

lemma generateEpisodeName_flag:
  assumes "validFileName f"
  shows "renameFlagOk (generateEpisodeName sName sFolder sNumber f eps force)"
  using assms generateEpisodeFileName_valid join_inject
  by (auto simp: generateEpisodeName_def renameFlagOk_def unchangedEpisodeMapping_def Let_def
           split: option.splits number.splits)


lemma generateEpisodeName_basename:
  "validFileName f \<Longrightarrow>
   basename (originalPath (val (generateEpisodeName sName sFolder sNumber f eps force))) = f"
  by (simp add: generateEpisodeName_origin basename_join)

lemma allMappings_setSeason_subset:
  "set (allMappings (setSeason k e m)) \<subseteq> set (episodeMappings e) \<union> set (allMappings m)"
proof
  fix x
  assume "x \<in> set (allMappings (setSeason k e m))"
  then obtain k' e' where "(k', e') \<in> set (setSeason k e m)" "x \<in> set (episodeMappings e')"
    by (auto simp: allMappings_iff)
  with set_setSeason_subset [of k e m]
  show "x \<in> set (episodeMappings e) \<union> set (allMappings m)"
    by (auto simp: allMappings_iff)
qed

text \<open>
  \<^bold>\<open>C7.\<close> The rename flag of an entry is true if and only if its original path differs
  from its proposed path. This holds for the mapping \<open>generateEpisodeName\<close> builds for a
  listed file name, with or without a forced episode number; hence for every entry of the
  structure the builder makes from the listings of the file store, and it is kept by every
  manual reassignment. (Listed names are proper names: not empty, without a slash, neither
  \<^verbatim>\<open>.\<close> nor \<^verbatim>\<open>..\<close>; the name a reassignment works on is the last piece of an original path.)
\<close>

theorem rename_flag_invariant:
  "(validFileName f \<longrightarrow> renameFlagOk (generateEpisodeName sName sFolder sNumber f eps force))
   \<and> ((\<forall>d. \<forall>f \<in> set (getFileNames d). validFileName f)
        \<longrightarrow> (\<forall>m \<in> set (allMappings
                            (generateEpisodeNames getFolderNames getFileNames dir series)).
               renameFlagOk m \<and> validFileName (basename (originalPath (val m)))))
   \<and> (assignEpisode selectedSeries episodeMapping selectedEpisode renames = Some renames'
        \<and> validFileName (basename (originalPath (val episodeMapping)))
        \<and> (\<forall>m \<in> set (allMappings renames).
               renameFlagOk m \<and> validFileName (basename (originalPath (val m))))
        \<longrightarrow> (\<forall>m \<in> set (allMappings renames').
               renameFlagOk m \<and> validFileName (basename (originalPath (val m)))))"
proof (intro conjI impI)
  assume "validFileName f"
  then show "renameFlagOk (generateEpisodeName sName sFolder sNumber f eps force)"
    by (rule generateEpisodeName_flag)
next
  assume v: "\<forall>d. \<forall>f \<in> set (getFileNames d). validFileName f"
  show "\<forall>m \<in> set (allMappings (generateEpisodeNames getFolderNames getFileNames dir series)).
          renameFlagOk m \<and> validFileName (basename (originalPath (val m)))"
  proof
    fix m
    assume "m \<in> set (allMappings (generateEpisodeNames getFolderNames getFileNames dir series))"
    then obtain k entry where
      ke: "(k, entry) \<in> set (generateEpisodeNames getFolderNames getFileNames dir series)"
      and m: "m \<in> set (episodeMappings entry)"
      by (auto simp: allMappings_iff)
    from generateEpisodeNames_entry [OF ke] obtain fName where
      "episodeMappings entry
         = generateEpisodeNamesForSeason getFileNames (join dir fName) k series"
      by blast
    with m season_list_entries obtain fl where fl: "fl \<in> set (getFileNames (join dir fName))"
      and mm: "m = generateEpisodeName (seriesName series) (join dir fName) k fl
                     (filter (\<lambda>e. airedSeason e = k) (episodes series)) None"
      by metis
    from fl v have "validFileName fl" by blast
    with mm show "renameFlagOk m \<and> validFileName (basename (originalPath (val m)))"
      by (simp add: generateEpisodeName_flag generateEpisodeName_basename)
  qed
next
  assume a: "assignEpisode selectedSeries episodeMapping selectedEpisode renames = Some renames'
        \<and> validFileName (basename (originalPath (val episodeMapping)))
        \<and> (\<forall>m \<in> set (allMappings renames).
               renameFlagOk m \<and> validFileName (basename (originalPath (val m))))"
  let ?k = "seasonNumber (val episodeMapping)"
  let ?f = "basename (originalPath (val episodeMapping))"
  let ?new = "generateEpisodeName (seriesName selectedSeries) (seasonFolder (val episodeMapping))
                ?k ?f
                (filter (\<lambda>e. airedSeason e = airedSeason selectedEpisode) (episodes selectedSeries))
                (Some (Num (airedEpisodeNumber selectedEpisode)))"
  from a obtain sm where sm: "getSeason renames ?k = Some sm"
    and r': "renames' = setSeason ?k
               (sm\<lparr>episodeMappings := arraySort sortEpisodeMappings
                        (map (\<lambda>m. if name m = name episodeMapping then ?new else m)
                             (episodeMappings sm))\<rparr>) renames"
    by (auto simp: assignEpisode_def Let_def split: option.splits)
  from sm have "(?k, sm) \<in> set renames"
    by (auto simp: getSeason_def dest: map_of_SomeD)
  then have old: "set (episodeMappings sm) \<subseteq> set (allMappings renames)"
    by (force simp: allMappings_iff)
  from a have new: "renameFlagOk ?new \<and> validFileName (basename (originalPath (val ?new)))"
    by (simp add: generateEpisodeName_flag generateEpisodeName_basename)
  show "\<forall>m \<in> set (allMappings renames').
          renameFlagOk m \<and> validFileName (basename (originalPath (val m)))"
  proof
    fix m
    assume "m \<in> set (allMappings renames')"
    with r' allMappings_setSeason_subset
    have "m \<in> set (map (\<lambda>m. if name m = name episodeMapping then ?new else m)
                      (episodeMappings sm))
          \<or> m \<in> set (allMappings renames)"
      by (fastforce simp: set_arraySort)
    then have "m = ?new \<or> m \<in> set (allMappings renames)"
      using old by auto
    with a new show "renameFlagOk m \<and> validFileName (basename (originalPath (val m)))"
      by blast
  qed
qed

theorem rename_flag_invariant_witness:
  "validFileName ''Show.e02.mkv''
   \<and> renameFlagOk (generateEpisodeName ''Show'' ''/tv/Show (2019)/Season 1'' 1 ''Show.e02.mkv''
                     (episodes exampleSeries) None)
   \<and> list_all validFileName (exampleFiles ''/tv/Show (2019)/Season 1'')
   \<and> list_all renameFlagOk (allMappings exampleRenames)
   \<and> (\<exists>renames'.
         assignEpisode exampleSeries secondFileMapping (episodes exampleSeries ! 0) exampleRenames
           = Some renames'
         \<and> list_all renameFlagOk (allMappings renames'))"
proof -
  have v0: "validFileName ''Show.e02.mkv''"
    by (simp add: validFileName_def)
  have v1: "\<forall>d. \<forall>f \<in> set (exampleFiles d). validFileName f"
    by (simp add: exampleFiles_def validFileName_def)
  have v2: "validFileName (basename (originalPath (val secondFileMapping)))"
    unfolding secondFileMapping_def
    by (simp add: generateEpisodeName_basename validFileName_def)
  have "assignEpisode exampleSeries secondFileMapping (episodes exampleSeries ! 0) exampleRenames
          \<noteq> None"
    by code_simp
  then obtain renames' where
    a: "assignEpisode exampleSeries secondFileMapping (episodes exampleSeries ! 0) exampleRenames
          = Some renames'"
    by blast
  note t = rename_flag_invariant
             [of "''Show.e02.mkv''" "''Show''" "''/tv/Show (2019)/Season 1''" 1
                 "episodes exampleSeries" None exampleFiles exampleFolders "''/tv/Show (2019)''"
                 exampleSeries exampleSeries secondFileMapping "episodes exampleSeries ! 0"
                 exampleRenames renames', folded exampleRenames_def]
  from t v0 have r0: "renameFlagOk (generateEpisodeName ''Show'' ''/tv/Show (2019)/Season 1'' 1
                        ''Show.e02.mkv'' (episodes exampleSeries) None)"
    by blast
  from t v1 have r1: "\<forall>m \<in> set (allMappings exampleRenames).
               renameFlagOk m \<and> validFileName (basename (originalPath (val m)))"
    by blast
  with t v2 a have r2: "\<forall>m \<in> set (allMappings renames').
               renameFlagOk m \<and> validFileName (basename (originalPath (val m)))"
    by blast
  from v1 have "list_all validFileName (exampleFiles ''/tv/Show (2019)/Season 1'')"
    by (simp add: list_all_iff)
  with v0 r0 r1 r2 a show ?thesis
    by (auto simp: list_all_iff)
qed

end
